theory Spec2Isabelle
  imports Main "HOL-Library.Word" "HOL-Library.Monad_Syntax"
begin

unbundle bit_operations_syntax

section \<open>Machine types\<close>

text \<open>
  \<open>uint8_t\<close>, \<open>uint16_t\<close> and \<open>uint32_t\<close> are words of their width. \<open>size_t\<close> is an
  unsigned word whose width depends on the compiler (16 bits under HI-TECH C for PIC18,
  the compiler named in every file header); functions over \<open>size_t\<close> are polymorphic in
  the width.
\<close>

type_synonym uint8_t = "8 word"
type_synonym uint16_t = "16 word"
type_synonym uint32_t = "32 word"

section \<open>mifare\_crypto.c: buffer lengths\<close>

text \<open>
  \<open>PaddedDataLength\<close>: the C expression \<open>nbytes % block_size\<close> divides by zero when
  \<open>block_size\<close> is 0; the model returns \<open>None\<close> there. All arithmetic is \<open>size_t\<close>
  arithmetic and wraps.
\<close>

definition PaddedDataLength :: "'a::len word \<Rightarrow> 'a word \<Rightarrow> 'a word option" where
  "PaddedDataLength nbytes block_size =
     (if block_size = 0 then None
      else if nbytes = 0 \<or> nbytes mod block_size \<noteq> 0
      then Some ((nbytes div block_size + 1) * block_size)
      else Some nbytes)"

section \<open>mifare\_crypto.c: checksums\<close>

text \<open>
  \<open>MifareCrc16\<close>, the ISO 14443-3 type A checksum. One pass of the \<open>do ... while\<close> body:
  the byte is folded into the low byte of the register, then spread by the nibble
  recurrence. \<open>bt\<close> is a \<open>uint8_t\<close>, so \<open>bt ^ (bt << 4)\<close> is cut to eight bits when it is
  stored; \<open>reg\<close> is a \<open>uint16_t\<close>.
\<close>

definition crc16_step :: "uint16_t \<Rightarrow> uint8_t \<Rightarrow> uint16_t" where
  "crc16_step reg b =
     (let bt = b XOR ucast (reg AND 0x00FF);
          bt = bt XOR push_bit 4 bt
      in drop_bit 8 reg XOR push_bit 8 (ucast bt) XOR push_bit 3 (ucast bt) XOR
         drop_bit 4 (ucast bt))"

text \<open>
  The loop \<open>do { ... } while (--len)\<close> over the bytes at \<open>data\<close>. The third argument is the
  number of passes still to run (at least one); a pass that finds no byte left in the buffer
  reads past its end, which is \<open>None\<close>.
\<close>

fun crc16_loop :: "uint16_t \<Rightarrow> uint8_t list \<Rightarrow> nat \<Rightarrow> uint16_t option" where
  "crc16_loop reg [] len = None"
| "crc16_loop reg (b # data) len =
     (if len - 1 = 0 then Some (crc16_step reg b)
      else crc16_loop (crc16_step reg b) data (len - 1))"

text \<open>
  \<open>MifareCrc16(data, len, crc)\<close> returns the two checksum bytes, least significant first.
  Called with \<open>len = 0\<close> the \<open>do ... while\<close> still runs its body and \<open>--len\<close> wraps to the
  largest \<open>size_t\<close>, so the loop runs off the buffer: \<open>None\<close>.
\<close>

definition MifareCrc16 :: "uint8_t list \<Rightarrow> nat \<Rightarrow> uint8_t list option" where
  "MifareCrc16 data len =
     (if len = 0 then None
      else case crc16_loop 0x6363 data len of
             None \<Rightarrow> None
           | Some reg \<Rightarrow> Some [ucast (reg AND 0xFF), ucast (drop_bit 8 reg AND 0xFF)])"

text \<open>
  \<open>MifareCrc16Append(data, len)\<close> stores the checksum at \<open>data[len]\<close> and \<open>data[len+1]\<close>;
  the buffer must reach that far. The result is the buffer after the call.
\<close>

definition MifareCrc16Append :: "uint8_t list \<Rightarrow> nat \<Rightarrow> uint8_t list option" where
  "MifareCrc16Append data len =
     (case MifareCrc16 data len of
        None \<Rightarrow> None
      | Some crc \<Rightarrow>
          if len + 2 \<le> length data then Some (take len data @ crc @ drop (len + 2) data)
          else None)"

text \<open>
  \<open>MifareCrc32\<close>: one pass of the inner \<open>for\<close> loop shifts the register right by one bit
  and folds in the reflected polynomial when a one was shifted out; the loop runs eight
  times for each byte.
\<close>

definition CRC32_POLY_REV :: uint32_t where
  "CRC32_POLY_REV = 0xEDB88320"

definition crc32_bit :: "uint32_t \<Rightarrow> uint32_t" where
  "crc32_bit reg =
     (let popped_bit = reg AND 0x00000001;
          reg = drop_bit 1 reg
      in if popped_bit \<noteq> 0 then reg XOR CRC32_POLY_REV else reg)"

fun crc32_bits :: "nat \<Rightarrow> uint32_t \<Rightarrow> uint32_t" where
  "crc32_bits 0 reg = reg"
| "crc32_bits (Suc n) reg = crc32_bits n (crc32_bit reg)"

definition crc32_byte :: "uint32_t \<Rightarrow> uint8_t \<Rightarrow> uint32_t" where
  "crc32_byte reg current_byte = crc32_bits 8 (reg XOR ucast current_byte)"

text \<open>The loop \<open>while (len--)\<close>: a pass with no byte left in the buffer reads past its end.\<close>

fun crc32_loop :: "uint32_t \<Rightarrow> uint8_t list \<Rightarrow> nat \<Rightarrow> uint32_t option" where
  "crc32_loop reg data 0 = Some reg"
| "crc32_loop reg [] (Suc len) = None"
| "crc32_loop reg (b # data) (Suc len) = crc32_loop (crc32_byte reg b) data len"

definition MifareCrc32 :: "uint8_t list \<Rightarrow> nat \<Rightarrow> uint8_t list option" where
  "MifareCrc32 data len =
     (case crc32_loop 0xFFFFFFFF data len of
        None \<Rightarrow> None
      | Some reg \<Rightarrow>
          Some (map (\<lambda>byte. ucast (drop_bit (8 * byte) reg AND 0xFF)) [0 ..< 4]))"

definition MifareCrc32Append :: "uint8_t list \<Rightarrow> nat \<Rightarrow> uint8_t list option" where
  "MifareCrc32Append data len =
     (case MifareCrc32 data len of
        None \<Rightarrow> None
      | Some crc \<Rightarrow>
          if len + 4 \<le> length data then Some (take len data @ crc @ drop (len + 4) data)
          else None)"

section \<open>Buffers\<close>

text \<open>
  A C buffer is the list of its bytes. \<open>memcpy dst off src n\<close> is the buffer \<open>dst\<close> after
  \<open>memcpy(dst + off, src, n)\<close>, and \<open>memset dst off c n\<close> after \<open>memset(dst + off, c, n)\<close>; both
  describe the C call when the \<open>n\<close> bytes lie inside the two buffers, which the theorems
  assume or the callers check.
\<close>

definition memcpy :: "uint8_t list \<Rightarrow> nat \<Rightarrow> uint8_t list \<Rightarrow> nat \<Rightarrow> uint8_t list" where
  "memcpy dst off src n = take off dst @ take n src @ drop (off + n) dst"

definition memset :: "uint8_t list \<Rightarrow> nat \<Rightarrow> uint8_t \<Rightarrow> nat \<Rightarrow> uint8_t list" where
  "memset dst off c n = take off dst @ replicate n c @ drop (off + n) dst"

section \<open>The block cipher primitives\<close>

text \<open>
  The single-block primitives are outside the code under study: \<open>DES_ecb_encrypt\<close> needs
  the S-box tables of \<open>spr.h\<close> and the AES functions are only declared in \<open>aes.h\<close>. They
  are parameters of the model. \<open>'ks\<close> stands for \<open>DES_key_schedule\<close>.
  \<^item> \<open>DES_set_key k\<close>: the schedule expanded from the eight key bytes \<open>k\<close>;
  \<^item> \<open>DES_ecb_encrypt input ks enc\<close>: the eight output bytes; \<open>enc\<close> is \<open>True\<close> for
    \<open>DES_ENCRYPT\<close> and \<open>False\<close> for \<open>DES_DECRYPT\<close>;
  \<^item> \<open>AES_encrypt userKey input\<close>: \<open>AES_set_encrypt_key(userKey, 128, &k)\<close> followed by
    \<open>AES_encrypt(input, output, &k)\<close>; \<open>AES_decrypt\<close> likewise with the decrypt key.
\<close>

record 'ks primitives =
  DES_set_key :: "uint8_t list \<Rightarrow> 'ks"
  DES_ecb_encrypt :: "uint8_t list \<Rightarrow> 'ks \<Rightarrow> bool \<Rightarrow> uint8_t list"
  AES_encrypt :: "uint8_t list \<Rightarrow> uint8_t list \<Rightarrow> uint8_t list"
  AES_decrypt :: "uint8_t list \<Rightarrow> uint8_t list \<Rightarrow> uint8_t list"

section \<open>mifare\_key.c: the key model\<close>

datatype key_type = T_DES | T_3DES | T_3K3DES | T_AES

text \<open>\<open>mifare_desfire_key\<close>: \<open>data\<close>, \<open>cmac_sk1\<close> and \<open>cmac_sk2\<close> are arrays of 24 bytes.\<close>

record 'ks mifare_desfire_key =
  key_data :: "uint8_t list"
  key_type :: key_type
  ks1 :: 'ks
  ks2 :: 'ks
  ks3 :: 'ks
  cmac_sk1 :: "uint8_t list"
  cmac_sk2 :: "uint8_t list"
  aes_version :: uint8_t

definition UpdateKeySchedules ::
  "'ks primitives \<Rightarrow> 'ks mifare_desfire_key \<Rightarrow> 'ks mifare_desfire_key" where
  "UpdateKeySchedules P key =
     (let key = key\<lparr>ks1 := DES_set_key P (take 8 (key_data key))\<rparr>;
          key = key\<lparr>ks2 := DES_set_key P (take 8 (drop 8 (key_data key)))\<rparr>
      in if key_type key = T_3K3DES
         then key\<lparr>ks3 := DES_set_key P (take 8 (drop 16 (key_data key)))\<rparr>
         else key)"

definition MifareDesKeyNewWithVersion ::
  "'ks primitives \<Rightarrow> 'ks mifare_desfire_key \<Rightarrow> uint8_t list \<Rightarrow> 'ks mifare_desfire_key" where
  "MifareDesKeyNewWithVersion P key val =
     (let key = key\<lparr>key_type := T_DES\<rparr>;
          key = key\<lparr>key_data := memcpy (key_data key) 0 val 8\<rparr>;
          key = key\<lparr>key_data := memcpy (key_data key) 8 val 8\<rparr>
      in UpdateKeySchedules P key)"

definition MifareDesKeyNew ::
  "'ks primitives \<Rightarrow> 'ks mifare_desfire_key \<Rightarrow> uint8_t list \<Rightarrow> 'ks mifare_desfire_key" where
  "MifareDesKeyNew P key val =
     (let data = map (\<lambda>b. b AND 0xfe) (take 8 val)
      in MifareDesKeyNewWithVersion P key data)"

definition Mifare3DesKeyNewWithVersion ::
  "'ks primitives \<Rightarrow> 'ks mifare_desfire_key \<Rightarrow> uint8_t list \<Rightarrow> 'ks mifare_desfire_key" where
  "Mifare3DesKeyNewWithVersion P key val =
     (let key = key\<lparr>key_type := T_3DES\<rparr>;
          key = key\<lparr>key_data := memcpy (key_data key) 0 val 16\<rparr>
      in UpdateKeySchedules P key)"

definition Mifare3DesKeyNew ::
  "'ks primitives \<Rightarrow> 'ks mifare_desfire_key \<Rightarrow> uint8_t list \<Rightarrow> 'ks mifare_desfire_key" where
  "Mifare3DesKeyNew P key val =
     (let data = map (\<lambda>b. b AND 0xfe) (take 8 val) @
                 map (\<lambda>b. b OR 0x01) (take 8 (drop 8 val))
      in Mifare3DesKeyNewWithVersion P key data)"

definition Mifare3k3DesKeyNewWithVersion ::
  "'ks primitives \<Rightarrow> 'ks mifare_desfire_key \<Rightarrow> uint8_t list \<Rightarrow> 'ks mifare_desfire_key" where
  "Mifare3k3DesKeyNewWithVersion P key val =
     (let key = key\<lparr>key_type := T_3K3DES\<rparr>;
          key = key\<lparr>key_data := memcpy (key_data key) 0 val 24\<rparr>
      in UpdateKeySchedules P key)"

definition Mifare3k3DesKeyNew ::
  "'ks primitives \<Rightarrow> 'ks mifare_desfire_key \<Rightarrow> uint8_t list \<Rightarrow> 'ks mifare_desfire_key" where
  "Mifare3k3DesKeyNew P key val =
     (let data = map (\<lambda>b. b AND 0xfe) (take 8 val) @ take 16 (drop 8 val)
      in Mifare3k3DesKeyNewWithVersion P key data)"

definition MifareAesKeyNewWithVersion ::
  "'ks mifare_desfire_key \<Rightarrow> uint8_t list \<Rightarrow> uint8_t \<Rightarrow> 'ks mifare_desfire_key" where
  "MifareAesKeyNewWithVersion key val version =
     (let key = key\<lparr>key_data := memcpy (key_data key) 0 val 16\<rparr>;
          key = key\<lparr>key_type := T_AES\<rparr>
      in key\<lparr>aes_version := version\<rparr>)"

definition MifareAesKeyNew ::
  "'ks mifare_desfire_key \<Rightarrow> uint8_t list \<Rightarrow> 'ks mifare_desfire_key" where
  "MifareAesKeyNew key val = MifareAesKeyNewWithVersion key val 0"

text \<open>
  \<open>MifareKeyGetVersion\<close>: the loop over \<open>n = 0 .. 7\<close> collects the low bit of
  \<open>data[n]\<close> at bit position \<open>7 - n\<close>.
\<close>

definition MifareKeyGetVersion :: "'ks mifare_desfire_key \<Rightarrow> uint8_t" where
  "MifareKeyGetVersion key =
     foldl (\<lambda>version n. version OR push_bit (7 - n) (key_data key ! n AND 1)) 0 [0 ..< 8]"

text \<open>
  \<open>MifareKeySetVersion\<close>. \<open>version_bit\<close> is the local of that name on pass \<open>n\<close> of the
  loop, \<open>(version & (1 << (7-n))) >> (7-n)\<close>.
\<close>

definition version_bit :: "uint8_t \<Rightarrow> nat \<Rightarrow> uint8_t" where
  "version_bit version n = drop_bit (7 - n) (version AND push_bit (7 - n) 1)"

text \<open>
  One pass of the loop. In \<open>key->data[n+8] |= ~version_bit\<close> the operand is promoted to
  \<open>int\<close> before it is complemented and the result is cut to eight bits when stored: on the
  stored byte this is the complement of the \<open>uint8_t\<close> value, \<open>NOT version_bit\<close>.
\<close>

definition set_version_pass :: "key_type \<Rightarrow> uint8_t \<Rightarrow> uint8_t list \<Rightarrow> nat \<Rightarrow> uint8_t list" where
  "set_version_pass ty version data n =
     (let data = data[n := data ! n AND 0xfe];
          data = data[n := data ! n OR version_bit version n]
      in if ty = T_DES then data[n + 8 := data ! n]
         else (let data = data[n + 8 := data ! (n + 8) AND 0xfe]
               in data[n + 8 := data ! (n + 8) OR NOT (version_bit version n)]))"

definition MifareKeySetVersion :: "'ks mifare_desfire_key \<Rightarrow> uint8_t \<Rightarrow> 'ks mifare_desfire_key" where
  "MifareKeySetVersion key version =
     key\<lparr>key_data := foldl (set_version_pass (key_type key) version) (key_data key) [0 ..< 8]\<rparr>"

text \<open>
  \<open>MifareSessionKeyNew\<close>: the local \<open>buffer\<close> is filled with four-byte slices of the two
  nonces and handed to the constructor of the authentication key's algorithm, which reads
  only the bytes that were filled.
\<close>

definition MifareSessionKeyNew ::
  "'ks primitives \<Rightarrow> 'ks mifare_desfire_key \<Rightarrow> uint8_t list \<Rightarrow> uint8_t list \<Rightarrow>
   'ks mifare_desfire_key \<Rightarrow> 'ks mifare_desfire_key" where
  "MifareSessionKeyNew P key rnda rndb authentication_key =
     (case key_type authentication_key of
        T_DES \<Rightarrow>
          MifareDesKeyNewWithVersion P key (take 4 rnda @ take 4 rndb)
      | T_3DES \<Rightarrow>
          Mifare3DesKeyNewWithVersion P key
            (take 4 rnda @ take 4 rndb @ take 4 (drop 4 rnda) @ take 4 (drop 4 rndb))
      | T_3K3DES \<Rightarrow>
          Mifare3k3DesKeyNew P key
            (take 4 rnda @ take 4 rndb @ take 4 (drop 6 rnda) @ take 4 (drop 6 rndb) @
             take 4 (drop 12 rnda) @ take 4 (drop 12 rndb))
      | T_AES \<Rightarrow>
          MifareAesKeyNew key
            (take 4 rnda @ take 4 rndb @ take 4 (drop 12 rnda) @ take 4 (drop 12 rndb)))"

section \<open>mifare.h: the card session\<close>

datatype authentication_scheme_t = AS_LEGACY | AS_NEW

text \<open>
  \<open>mifare_tag\<close>: \<open>ivect\<close> and \<open>cmac\<close> are arrays of 16 bytes (\<open>MAX_CRYPTO_BLOCK_SIZE\<close>),
  \<open>crypto_buffer\<close> of \<open>MAX_CRYPTO_BUFFER_SIZE\<close> bytes.
\<close>

definition MAX_CRYPTO_BLOCK_SIZE :: nat where "MAX_CRYPTO_BLOCK_SIZE = 16"
definition MAX_FRAME_SIZE :: nat where "MAX_FRAME_SIZE = 60"
definition MAX_PADDED_DATA_LENGTH :: nat where
  "MAX_PADDED_DATA_LENGTH = MAX_FRAME_SIZE + MAX_CRYPTO_BLOCK_SIZE - 1"
definition MAX_ENCIPHERED_DATA_LENGTH :: nat where
  "MAX_ENCIPHERED_DATA_LENGTH = MAX_FRAME_SIZE + 4 + MAX_CRYPTO_BLOCK_SIZE - 1"
definition MAX_CRYPTO_BUFFER_SIZE :: nat where
  "MAX_CRYPTO_BUFFER_SIZE = MAX_ENCIPHERED_DATA_LENGTH"
definition MAC_LENGTH :: nat where "MAC_LENGTH = 4"
definition CMAC_LENGTH :: nat where "CMAC_LENGTH = 8"
definition NOT_YET_AUTHENTICATED :: uint8_t where "NOT_YET_AUTHENTICATED = 255"
definition CRYPTO_ERROR :: uint8_t where "CRYPTO_ERROR = 0x01"

record 'ks mifare_tag =
  active :: uint8_t
  uid :: "uint8_t list"
  tag_type :: uint8_t
  last_picc_error :: uint8_t
  last_pcd_error :: uint8_t
  session_key :: "'ks mifare_desfire_key"
  authentication_scheme :: authentication_scheme_t
  authenticated_key_no :: uint8_t
  ivect :: "uint8_t list"
  cmac :: "uint8_t list"
  crypto_buffer :: "uint8_t list"
  selected_application :: uint32_t

section \<open>mifare\_crypto.c: the block-chaining engine\<close>

datatype mifare_crypto_direction = MCD_SEND | MCD_RECEIVE

datatype mifare_crypto_operation = MCO_ENCIPHER | MCO_DECIPHER

text \<open>\<open>Xor(ivect, data, len)\<close>: the buffer \<open>data\<close> after \<open>data[i] ^= ivect[i]\<close> for \<open>i < len\<close>.\<close>

definition Xor :: "uint8_t list \<Rightarrow> uint8_t list \<Rightarrow> nat \<Rightarrow> uint8_t list" where
  "Xor iv data len = map2 (XOR) (take len data) (take len iv) @ drop len data"

text \<open>
  \<open>Rol(data, len)\<close>: the first byte moves to index \<open>len - 1\<close>, the bytes between move down one
  place. With \<open>len = 0\<close> the loop bound \<open>len - 1\<close> wraps and the loop leaves the buffer; the
  callers check that \<open>len\<close> is positive.
\<close>

definition Rol :: "uint8_t list \<Rightarrow> nat \<Rightarrow> uint8_t list" where
  "Rol data len = take (len - 1) (drop 1 data) @ [data ! 0] @ drop len data"

definition KeyBlockSize :: "'ks mifare_desfire_key \<Rightarrow> nat" where
  "KeyBlockSize key =
     (case key_type key of T_DES \<Rightarrow> 8 | T_3DES \<Rightarrow> 8 | T_3K3DES \<Rightarrow> 8 | T_AES \<Rightarrow> 16)"

definition KeyMacingLength :: "'ks mifare_desfire_key \<Rightarrow> nat" where
  "KeyMacingLength key =
     (case key_type key of
        T_DES \<Rightarrow> MAC_LENGTH | T_3DES \<Rightarrow> MAC_LENGTH
      | T_3K3DES \<Rightarrow> CMAC_LENGTH | T_AES \<Rightarrow> CMAC_LENGTH)"

text \<open>
  The \<open>switch (key->type)\<close> of \<open>MifareCipherSingleBlock\<close>: the calls of the primitive for
  the key's algorithm and the operation. The triple-DES chains write their middle result
  into \<open>data\<close>; the pair returned is the buffer \<open>data\<close> and the local \<open>edata\<close> after the
  switch.
\<close>

definition cipher_switch ::
  "'ks primitives \<Rightarrow> 'ks mifare_desfire_key \<Rightarrow> mifare_crypto_operation \<Rightarrow> uint8_t list \<Rightarrow>
   uint8_t list \<times> uint8_t list" where
  "cipher_switch P key operation data =
     (case key_type key of
        T_DES \<Rightarrow>
          (case operation of
             MCO_ENCIPHER \<Rightarrow> (data, DES_ecb_encrypt P (take 8 data) (ks1 key) True)
           | MCO_DECIPHER \<Rightarrow> (data, DES_ecb_encrypt P (take 8 data) (ks1 key) False))
      | T_3DES \<Rightarrow>
          (case operation of
             MCO_ENCIPHER \<Rightarrow>
               (let edata = DES_ecb_encrypt P (take 8 data) (ks1 key) True;
                    data = memcpy data 0 (DES_ecb_encrypt P (take 8 edata) (ks2 key) False) 8;
                    edata = DES_ecb_encrypt P (take 8 data) (ks1 key) True
                in (data, edata))
           | MCO_DECIPHER \<Rightarrow>
               (let edata = DES_ecb_encrypt P (take 8 data) (ks1 key) False;
                    data = memcpy data 0 (DES_ecb_encrypt P (take 8 edata) (ks2 key) True) 8;
                    edata = DES_ecb_encrypt P (take 8 data) (ks1 key) False
                in (data, edata)))
      | T_3K3DES \<Rightarrow>
          (case operation of
             MCO_ENCIPHER \<Rightarrow>
               (let edata = DES_ecb_encrypt P (take 8 data) (ks1 key) True;
                    data = memcpy data 0 (DES_ecb_encrypt P (take 8 edata) (ks2 key) False) 8;
                    edata = DES_ecb_encrypt P (take 8 data) (ks3 key) True
                in (data, edata))
           | MCO_DECIPHER \<Rightarrow>
               (let edata = DES_ecb_encrypt P (take 8 data) (ks3 key) False;
                    data = memcpy data 0 (DES_ecb_encrypt P (take 8 edata) (ks2 key) True) 8;
                    edata = DES_ecb_encrypt P (take 8 data) (ks1 key) False
                in (data, edata)))
      | T_AES \<Rightarrow>
          (case operation of
             MCO_ENCIPHER \<Rightarrow> (data, AES_encrypt P (take 16 (key_data key)) (take 16 data))
           | MCO_DECIPHER \<Rightarrow> (data, AES_decrypt P (take 16 (key_data key)) (take 16 data))))"

text \<open>
  \<open>MifareCipherSingleBlock(key, data, ivect, direction, operation, block_size)\<close>: \<open>data\<close> is
  the buffer from the block's first byte on. The result is the pair of the buffers \<open>data\<close>
  and \<open>ivect\<close> after the call.
\<close>

definition MifareCipherSingleBlock ::
  "'ks primitives \<Rightarrow> 'ks mifare_desfire_key \<Rightarrow> uint8_t list \<Rightarrow> uint8_t list \<Rightarrow>
   mifare_crypto_direction \<Rightarrow> mifare_crypto_operation \<Rightarrow> nat \<Rightarrow> uint8_t list \<times> uint8_t list" where
  "MifareCipherSingleBlock P key data iv direction operation block_size =
     (let ovect = take block_size data;
          data = (if direction = MCD_SEND then Xor iv data block_size else data);
          (data, edata) = cipher_switch P key operation data;
          data = memcpy data 0 edata block_size
      in if direction = MCD_SEND then (data, memcpy iv 0 data block_size)
         else (Xor iv data block_size, memcpy iv 0 ovect block_size))"

text \<open>
  The loop of \<open>MifareCipherBlocksChained\<close> over the blocks of \<open>data\<close>, from \<open>offset\<close> on.
  The result is the pair of the buffers \<open>ivect\<close> and \<open>data\<close> after the loop.
\<close>

function cipher_blocks ::
  "'ks primitives \<Rightarrow> 'ks mifare_desfire_key \<Rightarrow> uint8_t list \<Rightarrow> uint8_t list \<Rightarrow> nat \<Rightarrow>
   mifare_crypto_direction \<Rightarrow> mifare_crypto_operation \<Rightarrow> nat \<Rightarrow> uint8_t list \<times> uint8_t list" where
  "cipher_blocks P key iv data data_size direction operation offset =
     (if offset < data_size then
        (let (block, iv) = MifareCipherSingleBlock P key (drop offset data) iv direction operation
                             (KeyBlockSize key)
         in cipher_blocks P key iv (take offset data @ block) data_size direction operation
              (offset + KeyBlockSize key))
      else (iv, data))"
  by pat_completeness auto
termination
  by (relation "measure (\<lambda>(P, key, iv, data, data_size, direction, operation, offset).
                   data_size - offset)")
     (auto simp: KeyBlockSize_def split: key_type.splits)

text \<open>
  \<open>MifareCipherBlocksChained(tag, key, ivect, data, data_size, direction, operation)\<close>. A null
  pointer is \<open>None\<close>. The result is the buffer used as initialization vector after the call
  (\<open>None\<close> when there was none) and the buffer \<open>data\<close>. When the vector used is the tag's
  own (\<open>ivect\<close> null, or \<open>tag->ivect\<close> passed), the caller stores the result back into the
  tag: see \<open>cipher_tag\<close>.
\<close>

definition MifareCipherBlocksChained ::
  "'ks primitives \<Rightarrow> 'ks mifare_tag option \<Rightarrow> 'ks mifare_desfire_key option \<Rightarrow>
   uint8_t list option \<Rightarrow> uint8_t list \<Rightarrow> nat \<Rightarrow> mifare_crypto_direction \<Rightarrow>
   mifare_crypto_operation \<Rightarrow> uint8_t list option \<times> uint8_t list" where
  "MifareCipherBlocksChained P tag key iv data data_size direction operation =
     (let (key, iv) =
            (case tag of
               None \<Rightarrow> (key, iv)
             | Some t \<Rightarrow>
                 (let key = (case key of None \<Rightarrow> Some (session_key t) | Some k \<Rightarrow> Some k);
                      iv = (case iv of None \<Rightarrow> Some (ivect t) | Some v \<Rightarrow> Some v)
                  in case authentication_scheme t of
                       AS_LEGACY \<Rightarrow> (key, map_option (\<lambda>v. memset v 0 0 MAX_CRYPTO_BLOCK_SIZE) iv)
                     | AS_NEW \<Rightarrow> (key, iv)))
      in case (key, iv) of
           (Some k, Some v) \<Rightarrow>
             (let (v, data) = cipher_blocks P k v data data_size direction operation 0
              in (Some v, data))
         | _ \<Rightarrow> (iv, data))"

text \<open>
  The call \<open>MifareCipherBlocksChained(tag, key, tag->ivect, ...)\<close> or
  \<open>MifareCipherBlocksChained(tag, NULL, NULL, ...)\<close>, where the vector is the tag's own: the
  tag after the call and the buffer \<open>data\<close>.
\<close>

definition cipher_tag ::
  "'ks primitives \<Rightarrow> 'ks mifare_tag \<Rightarrow> 'ks mifare_desfire_key option \<Rightarrow> uint8_t list \<Rightarrow> nat \<Rightarrow>
   mifare_crypto_direction \<Rightarrow> mifare_crypto_operation \<Rightarrow> 'ks mifare_tag \<times> uint8_t list" where
  "cipher_tag P tag key data data_size direction operation =
     (case MifareCipherBlocksChained P (Some tag) key None data data_size direction operation of
        (Some v, data) \<Rightarrow> (tag\<lparr>ivect := v\<rparr>, data)
      | (None, data) \<Rightarrow> (tag, data))"

text \<open>
  The contract of the primitives, as section 6 of the specification gives it: on a block of
  the algorithm's size each returns a block of that size, and decryption and encryption
  under one key undo each other.
\<close>

definition primitives_invertible :: "'ks primitives \<Rightarrow> bool" where
  "primitives_invertible P \<longleftrightarrow>
     (\<forall>ks b e. length b = 8 \<longrightarrow>
        length (DES_ecb_encrypt P b ks e) = 8 \<and>
        DES_ecb_encrypt P (DES_ecb_encrypt P b ks e) ks (\<not> e) = b) \<and>
     (\<forall>k b. length b = 16 \<longrightarrow>
        length (AES_encrypt P k b) = 16 \<and> length (AES_decrypt P k b) = 16 \<and>
        AES_decrypt P k (AES_encrypt P k b) = b)"

section \<open>An instance of the primitives\<close>

text \<open>
  A small instance of the primitives, used where a concrete run of the engine is shown:
  the key schedule is the list of key bytes, encryption adds the sum of the schedule's
  bytes to every byte of the block and decryption subtracts it (the AES stand-in adds one
  more). It satisfies \<open>primitives_invertible\<close>.
\<close>

definition example_primitives :: "uint8_t list primitives" where
  "example_primitives =
     \<lparr>DES_set_key = (\<lambda>k. k),
      DES_ecb_encrypt = (\<lambda>b ks e. if e then map (\<lambda>x. x + sum_list ks) b
                                  else map (\<lambda>x. x - sum_list ks) b),
      AES_encrypt = (\<lambda>k b. map (\<lambda>x. x + sum_list k + 1) b),
      AES_decrypt = (\<lambda>k b. map (\<lambda>x. x - sum_list k - 1) b)\<rparr>"

section \<open>mifare\_crypto.c: CMAC\<close>

text \<open>
  From here on a function that reads or writes outside a buffer, or divides by zero, has
  no defined result in C; the model returns \<open>None\<close> there. \<open>memcpy_chk\<close> and
  \<open>memset_chk\<close> are \<open>memcpy\<close> and \<open>memset\<close> with the bounds checked.
\<close>

definition memcpy_chk ::
  "uint8_t list \<Rightarrow> nat \<Rightarrow> uint8_t list \<Rightarrow> nat \<Rightarrow> uint8_t list option" where
  "memcpy_chk dst off src n =
     (if off + n \<le> length dst \<and> n \<le> length src then Some (memcpy dst off src n) else None)"

definition memset_chk :: "uint8_t list \<Rightarrow> nat \<Rightarrow> uint8_t \<Rightarrow> nat \<Rightarrow> uint8_t list option" where
  "memset_chk dst off c n =
     (if off + n \<le> length dst then Some (memset dst off c n) else None)"

text \<open>
  \<open>Lsl(data, len)\<close>: every byte takes the top bit of its right neighbour, the last byte a
  zero bit. Byte \<open>n\<close> is written before byte \<open>n + 1\<close> is, so the neighbour read is the
  original one.
\<close>

definition Lsl :: "uint8_t list \<Rightarrow> nat \<Rightarrow> uint8_t list" where
  "Lsl data len =
     map (\<lambda>n. push_bit 1 (data ! n) OR drop_bit 7 (data ! (n + 1))) [0 ..< len - 1] @
     [push_bit 1 (data ! (len - 1))] @ drop len data"

text \<open>
  \<open>CmacGenerateSubkeys\<close>: \<open>l\<close> and \<open>ivect\<close> are locals of \<open>MAX_CRYPTO_BLOCK_SIZE\<close> bytes of
  which the first \<open>kbs\<close> are zeroed and used.
\<close>

definition CmacGenerateSubkeys ::
  "'ks primitives \<Rightarrow> 'ks mifare_desfire_key \<Rightarrow> 'ks mifare_desfire_key" where
  "CmacGenerateSubkeys P key =
     (let kbs = KeyBlockSize key;
          R = (if kbs = 8 then 0x1B else 0x87);
          l = replicate kbs 0;
          iv = replicate kbs 0;
          l = snd (MifareCipherBlocksChained P None (Some key) (Some iv) l kbs
                     MCD_RECEIVE MCO_ENCIPHER);
          sk1 = memcpy (cmac_sk1 key) 0 l kbs;
          sk1 = Lsl sk1 kbs;
          sk1 = (if l ! 0 AND 0x80 \<noteq> 0 then sk1[kbs - 1 := sk1 ! (kbs - 1) XOR R] else sk1);
          key = key\<lparr>cmac_sk1 := sk1\<rparr>;
          sk2 = memcpy (cmac_sk2 key) 0 (cmac_sk1 key) kbs;
          sk2 = Lsl sk2 kbs;
          sk2 = (if cmac_sk1 key ! 0 AND 0x80 \<noteq> 0 then sk2[kbs - 1 := sk2 ! (kbs - 1) XOR R]
                 else sk2)
      in key\<lparr>cmac_sk2 := sk2\<rparr>)"

text \<open>
  The padding loop of \<open>Cmac\<close>, \<open>while (len % kbs) buffer[len++] = 0x00\<close>; the list is the
  part of \<open>buffer\<close> filled so far, \<open>len\<close> its length.
\<close>

function cmac_pad :: "'ks mifare_desfire_key \<Rightarrow> uint8_t list \<Rightarrow> uint8_t list" where
  "cmac_pad key buffer =
     (if length buffer mod KeyBlockSize key \<noteq> 0 then cmac_pad key (buffer @ [0x00])
      else buffer)"
  by pat_completeness auto
termination
proof (relation "measure (\<lambda>(key, buffer).
          (KeyBlockSize key - length buffer mod KeyBlockSize key) mod KeyBlockSize key)")
  show "wf (measure (\<lambda>(key :: 'ks mifare_desfire_key, buffer :: uint8_t list).
          (KeyBlockSize key - length buffer mod KeyBlockSize key) mod KeyBlockSize key))"
    by simp
next
  fix key :: "'ks mifare_desfire_key" and buffer :: "uint8_t list"
  assume a: "length buffer mod KeyBlockSize key \<noteq> 0"
  have k: "KeyBlockSize key = 8 \<or> KeyBlockSize key = 16"
    by (simp add: KeyBlockSize_def split: key_type.splits)
  let ?k = "KeyBlockSize key"
  have r: "length buffer mod ?k < ?k" using k by auto
  have s: "Suc (length buffer) mod ?k =
             (if Suc (length buffer mod ?k) = ?k then 0 else Suc (length buffer mod ?k))"
    by (simp add: mod_Suc)
  have "(?k - Suc (length buffer) mod ?k) mod ?k < (?k - length buffer mod ?k) mod ?k"
    using a r s by (auto split: if_splits)
  then show "((key, buffer @ [0x00]), (key, buffer)) \<in> measure (\<lambda>(key, buffer).
          (KeyBlockSize key - length buffer mod KeyBlockSize key) mod KeyBlockSize key)"
    by simp
qed

text \<open>
  \<open>Cmac(key, ivect, data, len, cmac)\<close>. The local \<open>buffer\<close> has \<open>MAX_PADDED_DATA_LENGTH\<close>
  bytes; the model keeps the part of it that is filled. The result is the buffer \<open>ivect\<close>
  after the call and the \<open>kbs\<close> bytes copied to \<open>cmac\<close>.
\<close>

definition Cmac ::
  "'ks primitives \<Rightarrow> 'ks mifare_desfire_key \<Rightarrow> uint8_t list \<Rightarrow> uint8_t list \<Rightarrow> nat \<Rightarrow>
   (uint8_t list \<times> uint8_t list) option" where
  "Cmac P key iv data len =
     (let kbs = KeyBlockSize key in
      if \<not> (len \<le> length data \<and> len \<le> MAX_PADDED_DATA_LENGTH) then None
      else
        (let buffer = take len data;
             buffer = (if len = 0 \<or> len mod kbs \<noteq> 0 then cmac_pad key (buffer @ [0x80])
                       else buffer);
             subkey = (if len = 0 \<or> len mod kbs \<noteq> 0 then cmac_sk2 key else cmac_sk1 key);
             len = length buffer
         in if \<not> (len \<le> MAX_PADDED_DATA_LENGTH \<and> kbs \<le> length iv) then None
            else
              (let buffer = take (len - kbs) buffer @ Xor subkey (drop (len - kbs) buffer) kbs
               in case MifareCipherBlocksChained P None (Some key) (Some iv) buffer len
                         MCD_SEND MCO_ENCIPHER of
                    (Some iv, buffer) \<Rightarrow> Some (iv, take kbs iv)
                  | (None, buffer) \<Rightarrow> None)))"

section \<open>mifare\_crypto.c: the transformation pipeline\<close>

text \<open>Communication settings are an \<open>int\<close> of flags; only bits below \<open>0x4000\<close> are read.\<close>

definition MDCM_PLAIN :: int where "MDCM_PLAIN = 0x0000"
definition MDCM_MACED :: int where "MDCM_MACED = 0x0001"
definition MDCM_ENCIPHERED :: int where "MDCM_ENCIPHERED = 0x0003"
definition MDCM_MASK :: int where "MDCM_MASK = 0x000F"
definition CMAC_COMMAND :: int where "CMAC_COMMAND = 0x0010"
definition CMAC_VERIFY :: int where "CMAC_VERIFY = 0x0020"
definition MAC_COMMAND :: int where "MAC_COMMAND = 0x0100"
definition MAC_VERIFY :: int where "MAC_VERIFY = 0x0200"
definition ENC_COMMAND :: int where "ENC_COMMAND = 0x1000"
definition NO_CRC :: int where "NO_CRC = 0x2000"

definition MacedDataLength :: "'ks mifare_desfire_key \<Rightarrow> 'a::len word \<Rightarrow> 'a word" where
  "MacedDataLength key nbytes = nbytes + of_nat (KeyMacingLength key)"

definition EncipheredDataLength ::
  "'ks mifare_tag \<Rightarrow> 'a::len word \<Rightarrow> int \<Rightarrow> 'a word option" where
  "EncipheredDataLength tag nbytes communication_settings =
     (let crc_length =
            (if communication_settings AND NO_CRC = 0
             then (case authentication_scheme tag of AS_LEGACY \<Rightarrow> 2 | AS_NEW \<Rightarrow> 4)
             else 0);
          block_size = of_nat (KeyBlockSize (session_key tag))
      in PaddedDataLength (nbytes + crc_length) block_size)"

text \<open>
  The call \<open>MifareCipherBlocksChained(tag, NULL, NULL, buf + off, data_size, ...)\<close> on a
  region of a buffer: the blocks touched must lie inside the buffer and the tag's vector
  must have its 16 bytes. The result is the tag and the whole buffer after the call.
\<close>

definition cipher_region ::
  "'ks primitives \<Rightarrow> 'ks mifare_tag \<Rightarrow> uint8_t list \<Rightarrow> nat \<Rightarrow> nat \<Rightarrow>
   mifare_crypto_direction \<Rightarrow> mifare_crypto_operation \<Rightarrow>
   ('ks mifare_tag \<times> uint8_t list) option" where
  "cipher_region P tag buf off data_size direction operation =
     (let bs = KeyBlockSize (session_key tag) in
      if off + (data_size + bs - 1) div bs * bs \<le> length buf \<and>
         MAX_CRYPTO_BLOCK_SIZE \<le> length (ivect tag)
      then (let (tag, block) = cipher_tag P tag None (drop off buf) data_size direction operation
            in Some (tag, take off buf @ block))
      else None)"

text \<open>
  The pointer returned by the pipeline: the caller's \<open>data\<close>, the tag's \<open>crypto_buffer\<close>, or
  \<open>NULL\<close>.
\<close>

datatype result_ptr = RES_DATA | RES_CRYPTO_BUFFER | RES_NULL

text \<open>
  \<open>MifareCryptoPreprocessData\<close>, case \<open>MDCM_MACED\<close> under the legacy scheme.
\<close>

definition preprocess_maced_legacy ::
  "'ks primitives \<Rightarrow> 'ks mifare_tag \<Rightarrow> uint8_t list \<Rightarrow> 'a::len word \<Rightarrow> 'a word \<Rightarrow> int \<Rightarrow>
   (result_ptr \<times> 'a word \<times> 'ks mifare_tag) option" where
  "preprocess_maced_legacy P tag data nbytes offset communication_settings =
     (if communication_settings AND MAC_COMMAND = 0 then Some (RES_DATA, nbytes, tag)
      else do {
        pdl \<leftarrow> PaddedDataLength (nbytes - offset) (of_nat (KeyBlockSize (session_key tag)));
        let edl = pdl + offset;
        res \<leftarrow> memcpy_chk (crypto_buffer tag) 0 data (unat nbytes);
        res \<leftarrow> memset_chk res (unat nbytes) 0 (unat (edl - nbytes));
        (tag, res) \<leftarrow> cipher_region P tag res (unat offset) (unat (edl - offset))
                          MCD_SEND MCO_ENCIPHER;
        mac \<leftarrow> (if 8 \<le> unat edl \<and> unat edl - 8 + MAC_LENGTH \<le> length res
                  then Some (take MAC_LENGTH (drop (unat edl - 8) res)) else None);
        res \<leftarrow> memcpy_chk res 0 data (unat nbytes);
        res \<leftarrow> memcpy_chk res (unat nbytes) mac MAC_LENGTH;
        Some (RES_CRYPTO_BUFFER, nbytes + of_nat MAC_LENGTH, tag\<lparr>crypto_buffer := res\<rparr>)
      })"

text \<open>
  Cases \<open>MDCM_PLAIN\<close> and \<open>MDCM_MACED\<close> under the new scheme; \<open>append_mac\<close> is false when the
  case was entered from \<open>MDCM_PLAIN\<close>.
\<close>

definition preprocess_cmac ::
  "'ks primitives \<Rightarrow> 'ks mifare_tag \<Rightarrow> uint8_t list \<Rightarrow> 'a::len word \<Rightarrow> int \<Rightarrow> bool \<Rightarrow>
   (result_ptr \<times> 'a word \<times> 'ks mifare_tag) option" where
  "preprocess_cmac P tag data nbytes communication_settings append_mac =
     (if communication_settings AND CMAC_COMMAND = 0 then Some (RES_DATA, nbytes, tag)
      else do {
        (iv, mac) \<leftarrow> Cmac P (session_key tag) (ivect tag) data (unat nbytes);
        let tag = tag\<lparr>ivect := iv\<rparr>;
        c \<leftarrow> memcpy_chk (cmac tag) 0 mac (KeyBlockSize (session_key tag));
        let tag = tag\<lparr>cmac := c\<rparr>;
        if append_mac then do {
          res \<leftarrow> memcpy_chk (crypto_buffer tag) 0 data (unat nbytes);
          res \<leftarrow> memcpy_chk res (unat nbytes) (cmac tag) CMAC_LENGTH;
          Some (RES_CRYPTO_BUFFER, nbytes + of_nat CMAC_LENGTH, tag\<lparr>crypto_buffer := res\<rparr>)
        } else Some (RES_DATA, nbytes, tag)
      })"

text \<open>Case \<open>MDCM_ENCIPHERED\<close>.\<close>

definition preprocess_enciphered ::
  "'ks primitives \<Rightarrow> 'ks mifare_tag \<Rightarrow> uint8_t list \<Rightarrow> 'a::len word \<Rightarrow> 'a word \<Rightarrow> int \<Rightarrow>
   (result_ptr \<times> 'a word \<times> 'ks mifare_tag) option" where
  "preprocess_enciphered P tag data nbytes offset communication_settings =
     (if communication_settings AND ENC_COMMAND = 0 then Some (RES_DATA, nbytes, tag)
      else do {
        e \<leftarrow> EncipheredDataLength tag (nbytes - offset) communication_settings;
        let edl = e + offset;
        res \<leftarrow> memcpy_chk (crypto_buffer tag) 0 data (unat nbytes);
        (res, nbytes) \<leftarrow>
          (if communication_settings AND NO_CRC = 0 then
             (case authentication_scheme tag of
                AS_LEGACY \<Rightarrow> do {
                  r \<leftarrow> MifareCrc16Append (drop (unat offset) res) (unat (nbytes - offset));
                  Some (take (unat offset) res @ r, nbytes + 2)
                }
              | AS_NEW \<Rightarrow> do {
                  r \<leftarrow> MifareCrc32Append res (unat nbytes);
                  Some (r, nbytes + 4)
                })
           else Some (res, nbytes));
        res \<leftarrow> memset_chk res (unat nbytes) 0 (unat (edl - nbytes));
        let nbytes = edl;
        (tag, res) \<leftarrow> cipher_region P tag res (unat offset) (unat (nbytes - offset)) MCD_SEND
                          (if authentication_scheme tag = AS_NEW then MCO_ENCIPHER
                           else MCO_DECIPHER);
        Some (RES_CRYPTO_BUFFER, nbytes, tag\<lparr>crypto_buffer := res\<rparr>)
      })"

text \<open>
  \<open>MifareCryptoPreprocessData(tag, data, nbytes, offset, communication_settings)\<close>: the
  pointer returned, \<open>*nbytes\<close> and the tag after the call. \<open>key\<close> is the address of a field
  of the tag and never null, so the first \<open>return\<close> is never taken. \<open>MDCM_PLAIN\<close> under the
  new scheme falls through into \<open>MDCM_MACED\<close>.
\<close>

definition MifareCryptoPreprocessData ::
  "'ks primitives \<Rightarrow> 'ks mifare_tag \<Rightarrow> uint8_t list \<Rightarrow> 'a::len word \<Rightarrow> 'a word \<Rightarrow> int \<Rightarrow>
   (result_ptr \<times> 'a word \<times> 'ks mifare_tag) option" where
  "MifareCryptoPreprocessData P tag data nbytes offset communication_settings =
     (let mode = communication_settings AND MDCM_MASK in
      if mode = MDCM_PLAIN \<and> authentication_scheme tag = AS_LEGACY
      then Some (RES_DATA, nbytes, tag)
      else if mode = MDCM_PLAIN \<or> mode = MDCM_MACED then
        (case authentication_scheme tag of
           AS_LEGACY \<Rightarrow> preprocess_maced_legacy P tag data nbytes offset communication_settings
         | AS_NEW \<Rightarrow>
             preprocess_cmac P tag data nbytes communication_settings (mode \<noteq> MDCM_PLAIN))
      else if mode = MDCM_ENCIPHERED
      then preprocess_enciphered P tag data nbytes offset communication_settings
      else Some (RES_NULL, - 1, tag))"

section \<open>mifare\_crypto.c: postprocessing\<close>

text \<open>
  \<open>MifareCryptoPostprocessData(tag, data, nbytes, communication_settings)\<close>. \<open>*nbytes\<close> is
  an \<open>ssize_t\<close>, here an \<open>int\<close>; a negative value used as a size or an index makes the
  access leave its buffer, which is \<open>None\<close>. The function changes the caller's \<open>data\<close>, so
  the buffer is part of the result.

  Case \<open>MDCM_MACED\<close> under the legacy scheme. \<open>edata\<close> is a local of
  \<open>MAX_ENCIPHERED_DATA_LENGTH\<close> bytes. \<open>size_t\<close> is taken at 16 bits for the local \<open>edl\<close>; the
  checks keep every length below the buffer sizes, where the width plays no role.
\<close>

definition postprocess_maced_legacy ::
  "'ks primitives \<Rightarrow> 'ks mifare_tag \<Rightarrow> uint8_t list \<Rightarrow> int \<Rightarrow> int \<Rightarrow>
   (result_ptr \<times> uint8_t list \<times> int \<times> 'ks mifare_tag) option" where
  "postprocess_maced_legacy P tag data nbytes communication_settings =
     (if communication_settings AND MAC_VERIFY = 0 then Some (RES_DATA, data, nbytes, tag)
      else do {
        let nbytes = nbytes - int (KeyMacingLength (session_key tag));
        (if 0 \<le> nbytes - 1 \<and> nbytes - 1 \<le> int MAX_ENCIPHERED_DATA_LENGTH then Some () else None);
        edl \<leftarrow> EncipheredDataLength tag (of_int (nbytes - 1) :: 16 word) communication_settings;
        edata \<leftarrow> memcpy_chk (replicate MAX_ENCIPHERED_DATA_LENGTH 0) 0 data (nat (nbytes - 1));
        edata \<leftarrow> memset_chk edata (nat (nbytes - 1)) 0 (unat (edl - of_int (nbytes - 1)));
        (tag, edata) \<leftarrow> cipher_region P tag edata 0 (unat edl) MCD_SEND MCO_ENCIPHER;
        (if 8 \<le> unat edl \<and> unat edl - 8 + MAC_LENGTH \<le> length edata \<and>
            nat (nbytes - 1) + MAC_LENGTH \<le> length data then Some () else None);
        if take MAC_LENGTH (drop (nat (nbytes - 1)) data) \<noteq>
           take MAC_LENGTH (drop (unat edl - 8) edata)
        then Some (RES_NULL, data, - 1, tag\<lparr>last_pcd_error := CRYPTO_ERROR\<rparr>)
        else do {
          let nbytes = nbytes - int MAC_LENGTH;
          (if 0 \<le> nbytes - 1 then Some () else None);
          Some (RES_DATA, data[nat (nbytes - 1) := 0x00], nbytes, tag)
        }
      })"

text \<open>
  Cases \<open>MDCM_PLAIN\<close> and \<open>MDCM_MACED\<close> under the new scheme. With \<open>CMAC_VERIFY\<close> set and
  fewer than \<open>1 + CMAC_LENGTH\<close> bytes received, the \<open>break\<close> leaves the switch with
  nothing done.
\<close>

definition postprocess_cmac ::
  "'ks primitives \<Rightarrow> 'ks mifare_tag \<Rightarrow> uint8_t list \<Rightarrow> int \<Rightarrow> int \<Rightarrow>
   (result_ptr \<times> uint8_t list \<times> int \<times> 'ks mifare_tag) option" where
  "postprocess_cmac P tag data nbytes communication_settings =
     (if communication_settings AND CMAC_COMMAND = 0 then Some (RES_DATA, data, nbytes, tag)
      else if communication_settings AND CMAC_VERIFY \<noteq> 0 then
        (if nbytes < 1 + int CMAC_LENGTH then Some (RES_DATA, data, nbytes, tag)
         else do {
           (if nat (nbytes - 1) < length data then Some () else None);
           let first_cmac_byte = data ! nat (nbytes - 1 - int CMAC_LENGTH);
           let data = data[nat (nbytes - 1 - int CMAC_LENGTH) := data ! nat (nbytes - 1)];
           let num_cmac_bytes = int CMAC_LENGTH;
           (iv, mac) \<leftarrow> Cmac P (session_key tag) (ivect tag) data (nat (nbytes - num_cmac_bytes));
           let tag = tag\<lparr>ivect := iv\<rparr>;
           c \<leftarrow> memcpy_chk (cmac tag) 0 mac (KeyBlockSize (session_key tag));
           let tag = tag\<lparr>cmac := c\<rparr>;
           let data = data[nat (nbytes - 1 - int CMAC_LENGTH) := first_cmac_byte];
           if take CMAC_LENGTH (cmac tag) \<noteq>
              take CMAC_LENGTH (drop (nat (nbytes - 1 - int CMAC_LENGTH)) data)
           then Some (RES_NULL, data, - 1, tag\<lparr>last_pcd_error := CRYPTO_ERROR\<rparr>)
           else (let nbytes = nbytes - int CMAC_LENGTH
                 in Some (RES_DATA, data[nat (nbytes - 1) := 0x00], nbytes, tag))
         })
      else do {
        (if 0 \<le> nbytes then Some () else None);
        (iv, mac) \<leftarrow> Cmac P (session_key tag) (ivect tag) data (nat nbytes);
        let tag = tag\<lparr>ivect := iv\<rparr>;
        c \<leftarrow> memcpy_chk (cmac tag) 0 mac (KeyBlockSize (session_key tag));
        Some (RES_DATA, data, nbytes, tag\<lparr>cmac := c\<rparr>)
      })"

text \<open>
  Case \<open>MDCM_ENCIPHERED\<close>: the padding test of the inner \<open>for\<close> loop, for the bytes at
  \<open>end_crc_pos .. *nbytes - 2\<close>.
\<close>

definition padding_ok :: "uint8_t list \<Rightarrow> int \<Rightarrow> int \<Rightarrow> bool" where
  "padding_ok res end_crc_pos nbytes =
     list_all (\<lambda>n. let byte = res ! n
                    in byte = 0x00 \<or> (byte = 0x80 \<and> int n = end_crc_pos))
       [nat end_crc_pos ..< nat (nbytes - 1)]"

text \<open>
  The \<open>do ... while (!verified && end_crc_pos < *nbytes)\<close> loop that looks for the CRC. The
  result is the buffer \<open>res\<close>, \<open>crc_pos\<close> and \<open>verified\<close> when the loop ends.
\<close>

function crc_search ::
  "authentication_scheme_t \<Rightarrow> uint8_t list \<Rightarrow> int \<Rightarrow> int \<Rightarrow> (uint8_t list \<times> int \<times> bool) option" where
  "crc_search scheme res crc_pos nbytes =
     (let end_crc_pos = crc_pos + (case scheme of AS_LEGACY \<Rightarrow> 2 | AS_NEW \<Rightarrow> 4) in
      if \<not> (0 \<le> crc_pos \<and> nbytes - 1 \<le> int (length res)) then None
      else
        case (case scheme of
                AS_LEGACY \<Rightarrow> MifareCrc16 res (nat end_crc_pos)
              | AS_NEW \<Rightarrow> MifareCrc32 res (nat end_crc_pos)) of
          None \<Rightarrow> None
        | Some crc \<Rightarrow>
            (let verified = (list_all (\<lambda>b. b = 0) crc \<and> padding_ok res end_crc_pos nbytes) in
             if verified then Some (res, crc_pos, True)
             else
               (case (case scheme of
                        AS_LEGACY \<Rightarrow> Some res
                      | AS_NEW \<Rightarrow>
                          if 1 \<le> crc_pos \<and> nat crc_pos < length res
                          then Some (res[nat (crc_pos - 1) := res ! nat crc_pos,
                                         nat crc_pos := res ! nat (crc_pos - 1)])
                          else None) of
                  None \<Rightarrow> None
                | Some res \<Rightarrow>
                    if end_crc_pos < nbytes then crc_search scheme res (crc_pos + 1) nbytes
                    else Some (res, crc_pos + 1, False))))"
  by pat_completeness auto
termination
  by (relation "measure (\<lambda>(scheme, res, crc_pos, nbytes). nat (nbytes - crc_pos))")
     (auto split: authentication_scheme_t.splits)

definition postprocess_enciphered ::
  "'ks primitives \<Rightarrow> 'ks mifare_tag \<Rightarrow> uint8_t list \<Rightarrow> int \<Rightarrow>
   (result_ptr \<times> uint8_t list \<times> int \<times> 'ks mifare_tag) option" where
  "postprocess_enciphered P tag data nbytes =
     do {
       let nbytes = nbytes - 1;
       (if 0 \<le> nbytes then Some () else None);
       (tag, data) \<leftarrow> cipher_region P tag data 0 (nat nbytes) MCD_RECEIVE MCO_DECIPHER;
       case authentication_scheme tag of
         AS_LEGACY \<Rightarrow> do {
           let crc_pos = nbytes - 8 - 1;
           let crc_pos = (if crc_pos < 0 then 0 else crc_pos);
           (res, crc_pos, verified) \<leftarrow> crc_search AS_LEGACY data crc_pos nbytes;
           if verified then
             (if nat crc_pos < length res
              then Some (RES_DATA, res[nat crc_pos := 0x00], crc_pos + 1, tag)
              else None)
           else Some (RES_NULL, res, - 1, tag\<lparr>last_pcd_error := CRYPTO_ERROR\<rparr>)
         }
       | AS_NEW \<Rightarrow> do {
           res \<leftarrow> memcpy_chk (crypto_buffer tag) 0 data (nat nbytes);
           let crc_pos = nbytes - 16 - 3;
           let crc_pos = (if crc_pos < 0 then 0 else crc_pos);
           res \<leftarrow> memcpy_chk res (nat crc_pos + 1) (drop (nat crc_pos) res) (nat (nbytes - crc_pos));
           let res = res[nat crc_pos := 0x00];
           let crc_pos = crc_pos + 1;
           let nbytes = nbytes + 1;
           (res, crc_pos, verified) \<leftarrow> crc_search AS_NEW res crc_pos nbytes;
           if verified
           then Some (RES_CRYPTO_BUFFER, data, crc_pos, tag\<lparr>crypto_buffer := res\<rparr>)
           else Some (RES_NULL, data, - 1,
                      tag\<lparr>crypto_buffer := res, last_pcd_error := CRYPTO_ERROR\<rparr>)
         }
     }"

text \<open>
  The whole function. As in preprocessing, \<open>key\<close> is never null; a single received byte
  is the status alone and is returned as it is; \<open>MDCM_PLAIN\<close> under the new scheme falls
  through into \<open>MDCM_MACED\<close>.
\<close>

definition MifareCryptoPostprocessData ::
  "'ks primitives \<Rightarrow> 'ks mifare_tag \<Rightarrow> uint8_t list \<Rightarrow> int \<Rightarrow> int \<Rightarrow>
   (result_ptr \<times> uint8_t list \<times> int \<times> 'ks mifare_tag) option" where
  "MifareCryptoPostprocessData P tag data nbytes communication_settings =
     (let mode = communication_settings AND MDCM_MASK in
      if nbytes = 1 then Some (RES_DATA, data, nbytes, tag)
      else if mode = MDCM_PLAIN \<and> authentication_scheme tag = AS_LEGACY
      then Some (RES_DATA, data, nbytes, tag)
      else if mode = MDCM_PLAIN \<or> mode = MDCM_MACED then
        (case authentication_scheme tag of
           AS_LEGACY \<Rightarrow> postprocess_maced_legacy P tag data nbytes communication_settings
         | AS_NEW \<Rightarrow> postprocess_cmac P tag data nbytes communication_settings)
      else if mode = MDCM_ENCIPHERED then postprocess_enciphered P tag data nbytes
      else Some (RES_NULL, data, - 1, tag))"

section \<open>mifare.c: the serial transport\<close>

text \<open>
  The file-level state of \<open>mifare.c\<close> and the serial link it drives. \<open>serial_tx\<close> is the
  sequence of bytes handed to \<open>SerialPutChar\<close>, which the link transmits in that order.
  \<open>serial_rx\<close> lists the outcomes of the waits that \<open>MifareGetBuf\<close> will make, in order:
  \<open>Some b\<close> when the byte \<open>b\<close> is ready before the timer runs out, \<open>None\<close> when the wait
  times out; after the end of the list every wait times out. \<open>rxBuf\<close> has
  \<open>MAX_FRAME_SIZE + 5\<close> bytes.
\<close>

record link_state =
  uartStatus :: uint8_t
  rxBuf :: "uint8_t list"
  serial_tx :: "uint8_t list"
  serial_rx :: "uint8_t option list"

definition MF_UARTSTATUS_TX :: uint8_t where "MF_UARTSTATUS_TX = 1"
definition MF_UARTSTATUS_TXSUCC :: uint8_t where "MF_UARTSTATUS_TXSUCC = 2"
definition MF_UARTSTATUS_RXSUCC :: uint8_t where "MF_UARTSTATUS_RXSUCC = 3"
definition MF_UARTSTATUS_RXERR :: uint8_t where "MF_UARTSTATUS_RXERR = 4"
definition SL_TCL :: uint8_t where "SL_TCL = 0x21"
definition SL_OPERATION_SUCC :: uint8_t where "SL_OPERATION_SUCC = 0x00"
definition MF_OPERATION_OK :: uint8_t where "MF_OPERATION_OK = 0x00"
definition MF_ADDITIONAL_FRAME :: uint8_t where "MF_ADDITIONAL_FRAME = 0xAF"
definition MF_AUTHENTICATE_LEGACY :: uint8_t where "MF_AUTHENTICATE_LEGACY = 0x0A"
definition FAIL :: int where "FAIL = - 1"
definition SUCCESS :: int where "SUCCESS = 0"

text \<open>
  \<open>MifarePutBuf(buffer, size)\<close>: the \<open>size\<close> bytes of the buffer, then their running XOR.
  Reading more bytes than the buffer has is \<open>None\<close>. (The parameter \<open>size\<close> is \<open>sz\<close> here
  and below.)
\<close>

definition MifarePutBuf :: "uint8_t list \<Rightarrow> uint8_t \<Rightarrow> link_state \<Rightarrow> link_state option" where
  "MifarePutBuf buffer sz s =
     (if unat sz \<le> length buffer then
        (let s = s\<lparr>uartStatus := MF_UARTSTATUS_TX\<rparr>;
             checksum = foldl (XOR) 0 (take (unat sz) buffer);
             s = s\<lparr>serial_tx := serial_tx s @ take (unat sz) buffer\<rparr>;
             s = s\<lparr>serial_tx := serial_tx s @ [checksum]\<rparr>
         in Some (s\<lparr>uartStatus := MF_UARTSTATUS_TXSUCC\<rparr>))
      else None)"

text \<open>
  The receiving loop of \<open>MifareGetBuf\<close>: \<open>rxCount\<close>, \<open>checkSum\<close> and the state when the loop
  ends. A byte stored past the end of \<open>rxBuf\<close> is \<open>None\<close>.
\<close>

function get_bytes :: "nat \<Rightarrow> uint8_t \<Rightarrow> link_state \<Rightarrow> (nat \<times> uint8_t \<times> link_state) option" where
  "get_bytes rxCount checkSum s =
     (if rxCount < 2 \<or> (rxCount \<ge> 2 \<and> rxCount < unat (rxBuf s ! 1) + 2) then
        (case serial_rx s of
           [] \<Rightarrow> Some (rxCount, checkSum, s\<lparr>uartStatus := MF_UARTSTATUS_RXERR\<rparr>)
         | None # rest \<Rightarrow>
             Some (rxCount, checkSum, s\<lparr>uartStatus := MF_UARTSTATUS_RXERR, serial_rx := rest\<rparr>)
         | Some b # rest \<Rightarrow>
             if rxCount < length (rxBuf s)
             then get_bytes (rxCount + 1) (checkSum XOR b)
                    (s\<lparr>rxBuf := (rxBuf s)[rxCount := b], serial_rx := rest\<rparr>)
             else None)
      else Some (rxCount, checkSum, s))"
  by pat_completeness auto
termination
  by (relation "measure (\<lambda>(rxCount, checkSum, s). length (serial_rx s))") auto

definition MifareGetBuf :: "link_state \<Rightarrow> link_state option" where
  "MifareGetBuf s =
     (case get_bytes 0 0 (s\<lparr>uartStatus := MF_UARTSTATUS_RXSUCC\<rparr>) of
        None \<Rightarrow> None
      | Some (rxCount, checkSum, s) \<Rightarrow>
          (let s = (if checkSum \<noteq> 0 then s\<lparr>uartStatus := MF_UARTSTATUS_RXERR\<rparr> else s)
           in Some (s\<lparr>rxBuf := memset (rxBuf s) rxCount 0 (MAX_FRAME_SIZE - rxCount)\<rparr>)))"

text \<open>
  The \<open>for\<close> loop of \<open>MifareCommTCL\<close>, from pass \<open>i\<close> on, as the braces of the source have
  it: each pass copies one byte of the data into the command buffer, sends the command
  buffer with \<open>MifarePutBuf\<close>, receives with \<open>MifareGetBuf\<close> and checks the answer.
  \<open>comm\<close> has \<open>MAX_FRAME_SIZE + 3\<close> bytes; \<open>success\<close> is a \<open>uint8_t\<close>.
\<close>

function tcl_loop ::
  "uint8_t list \<Rightarrow> uint8_t \<Rightarrow> nat \<Rightarrow> uint8_t list \<Rightarrow> uint8_t \<Rightarrow> link_state \<Rightarrow>
   (uint8_t \<times> link_state) option" where
  "tcl_loop buffer sz i comm success s =
     (if i < unat sz then
        (if i + 3 < length comm \<and> i < length buffer then
           (let comm = comm[i + 3 := buffer ! i] in
            case MifarePutBuf comm (sz + 3) s of
              None \<Rightarrow> None
            | Some s \<Rightarrow>
                (case MifareGetBuf s of
                   None \<Rightarrow> None
                 | Some s \<Rightarrow>
                     (let success =
                            (if uartStatus s = MF_UARTSTATUS_RXSUCC \<and> rxBuf s ! 2 = SL_TCL \<and>
                                rxBuf s ! 3 = SL_OPERATION_SUCC \<and>
                                (rxBuf s ! 4 = MF_OPERATION_OK \<or> rxBuf s ! 4 = MF_ADDITIONAL_FRAME)
                             then word_of_int SUCCESS else success)
                      in tcl_loop buffer sz (i + 1) comm success s)))
         else None)
      else Some (success, s))"
  by pat_completeness auto
termination
  by (relation "measure (\<lambda>(buffer, sz, i, comm, success, s). unat sz - i)") auto

text \<open>
  \<open>MifareCommTCL(buffer, size)\<close>. \<open>comm\<close> is what the local array of that name holds when
  the function is entered. After the loop the DESFire status \<open>rxBuf[4]\<close> is stored behind
  the received data, at \<open>MF_RXDATA[MF_RXLEN-1]\<close>, which is \<open>rxBuf[rxBuf[1] + 1]\<close>. The
  \<open>uint8_t success\<close>, initialised with \<open>FAIL\<close>, is returned as an \<open>int\<close>.
\<close>

definition MifareCommTCL ::
  "uint8_t list \<Rightarrow> uint8_t \<Rightarrow> uint8_t list \<Rightarrow> link_state \<Rightarrow> (int \<times> link_state) option" where
  "MifareCommTCL buffer sz comm s =
     (let comm = comm[0 := 0xBA];
          comm = comm[1 := sz + 2];
          comm = comm[2 := SL_TCL]
      in case tcl_loop buffer sz 0 comm (word_of_int FAIL) s of
           None \<Rightarrow> None
         | Some (success, s) \<Rightarrow>
             (if unat (rxBuf s ! 1) + 1 < length (rxBuf s)
              then Some (uint success,
                         s\<lparr>rxBuf := (rxBuf s)[unat (rxBuf s ! 1) + 1 := rxBuf s ! 4]\<rparr>)
              else None))"

section \<open>mifare.c: authentication\<close>

text \<open>
  \<open>Authenticate(tag, cmd, key_no, key)\<close> in the steps of its comment. The locals
  \<open>PICC_E_RndB\<close>, \<open>PICC_RndB\<close>, \<open>PCD_RndA\<close>, \<open>PCD_r_RndB\<close>, \<open>PICC_E_r_RndA\<close>, \<open>PICC_r_RndA\<close> and
  \<open>PCD_r_RndA\<close> are arrays of 16 bytes of which \<open>key_length\<close> bytes are filled, \<open>token\<close> one of
  32 bytes of which \<open>2 * key_length\<close> are filled; the model keeps the filled part. The
  code reads them in whole blocks of the key's block size, so \<open>key_length\<close> has to be a
  positive multiple of the block size of at most 16: with any other length the code reads
  bytes that were never written, or past an array, and the model gives \<open>None\<close>.

  \<open>MifareCipherBlocksChained\<close> is called with \<open>tag\<close>, \<open>key\<close> and \<open>tag->ivect\<close>: the vector is
  the tag's own, the call is \<open>cipher_tag\<close>.

  Steps 1 and 2: the tag is reset, the command \<open>{cmd, key_no}\<close> is exchanged and the
  card's challenge deciphered. \<open>comm\<close> is what the local array of \<open>MifareCommTCL\<close> holds on
  entry. The result is the tag, the link, \<open>key_length\<close> and \<open>PICC_RndB\<close>.
\<close>

definition auth_challenge ::
  "'ks primitives \<Rightarrow> 'ks mifare_tag \<Rightarrow> uint8_t \<Rightarrow> uint8_t \<Rightarrow> 'ks mifare_desfire_key \<Rightarrow>
   uint8_t list \<Rightarrow> link_state \<Rightarrow> ('ks mifare_tag \<times> link_state \<times> nat \<times> uint8_t list) option" where
  "auth_challenge P tag cmd key_no key comm s =
     (let tag = tag\<lparr>ivect := memset (ivect tag) 0 0 MAX_CRYPTO_BLOCK_SIZE\<rparr>;
          tag = tag\<lparr>authenticated_key_no := NOT_YET_AUTHENTICATED\<rparr>;
          tag = tag\<lparr>authentication_scheme :=
                      (if MF_AUTHENTICATE_LEGACY = cmd then AS_LEGACY else AS_NEW)\<rparr>;
          cmd1 = [cmd, key_no]
      in case MifareCommTCL cmd1 2 comm s of
           None \<Rightarrow> None
         | Some (status, s) \<Rightarrow>
             (let key_length = int (unat (rxBuf s ! 1)) - 3 - 1 in
              if 1 \<le> key_length \<and> key_length \<le> 16 \<and>
                 int (KeyBlockSize key) dvd key_length \<and>
                 MAX_CRYPTO_BLOCK_SIZE \<le> length (ivect tag)
              then
                (let key_length = nat key_length;
                     PICC_E_RndB = take key_length (drop 5 (rxBuf s));
                     PICC_RndB = PICC_E_RndB;
                     (tag, PICC_RndB) = cipher_tag P tag (Some key) PICC_RndB key_length
                                          MCD_RECEIVE MCO_DECIPHER
                 in Some (tag, s, key_length, PICC_RndB))
              else None))"

text \<open>
  Step 3: \<open>PCD_RndA\<close> holds the 16 bytes that \<open>RAND_bytes\<close> delivered; the token is built
  and transformed. The result is the tag and \<open>token\<close>.
\<close>

definition auth_token ::
  "'ks primitives \<Rightarrow> 'ks mifare_tag \<Rightarrow> uint8_t \<Rightarrow> 'ks mifare_desfire_key \<Rightarrow> nat \<Rightarrow>
   uint8_t list \<Rightarrow> uint8_t list \<Rightarrow> 'ks mifare_tag \<times> uint8_t list" where
  "auth_token P tag cmd key key_length PICC_RndB PCD_RndA =
     (let PCD_r_RndB = take key_length PICC_RndB;
          PCD_r_RndB = Rol PCD_r_RndB key_length;
          token = take key_length PCD_RndA;
          token = token @ take key_length PCD_r_RndB
      in cipher_tag P tag (Some key) token (2 * key_length) MCD_SEND
           (if MF_AUTHENTICATE_LEGACY = cmd then MCO_DECIPHER else MCO_ENCIPHER))"

text \<open>
  Step 4 and the first half of step 5: the token is sent behind the marker \<open>0xAF\<close>, the
  card's answer deciphered, and the engine's own rotation of \<open>RndA\<close> computed. The result is
  the tag, the link, \<open>PICC_r_RndA\<close> and \<open>PCD_r_RndA\<close>.
\<close>

definition auth_response ::
  "'ks primitives \<Rightarrow> 'ks mifare_tag \<Rightarrow> 'ks mifare_desfire_key \<Rightarrow> nat \<Rightarrow> uint8_t list \<Rightarrow>
   uint8_t list \<Rightarrow> uint8_t list \<Rightarrow> link_state \<Rightarrow>
   ('ks mifare_tag \<times> link_state \<times> uint8_t list \<times> uint8_t list) option" where
  "auth_response P tag key key_length token PCD_RndA comm s =
     (let cmd2 = [0xAF] @ take (2 * key_length) token in
      case MifareCommTCL cmd2 (of_nat (length cmd2)) comm s of
        None \<Rightarrow> None
      | Some (status, s) \<Rightarrow>
          (let PICC_E_r_RndA = take key_length (drop 5 (rxBuf s));
               PICC_r_RndA = PICC_E_r_RndA;
               (tag, PICC_r_RndA) = cipher_tag P tag (Some key) PICC_r_RndA key_length
                                      MCD_RECEIVE MCO_DECIPHER;
               PCD_r_RndA = take key_length PCD_RndA;
               PCD_r_RndA = Rol PCD_r_RndA key_length
           in Some (tag, s, PICC_r_RndA, PCD_r_RndA)))"

text \<open>
  The nonce bytes that \<open>MifareSessionKeyNew\<close> reads from \<open>rnda\<close> and \<open>rndb\<close> for a key of the
  given algorithm.
\<close>

definition session_key_nonce_bytes :: "key_type \<Rightarrow> nat" where
  "session_key_nonce_bytes ty =
     (case ty of T_DES \<Rightarrow> 4 | T_3DES \<Rightarrow> 8 | T_3K3DES \<Rightarrow> 16 | T_AES \<Rightarrow> 16)"

text \<open>
  The whole function: the status returned, the tag and the link. \<open>comm1\<close> and \<open>comm2\<close> are
  the initial contents of \<open>comm\<close> in the two calls of \<open>MifareCommTCL\<close>. An inactive tag fails
  at once (\<open>ASSERT_ACTIVE\<close>).
\<close>

definition Authenticate ::
  "'ks primitives \<Rightarrow> 'ks mifare_tag \<Rightarrow> uint8_t \<Rightarrow> uint8_t \<Rightarrow> 'ks mifare_desfire_key \<Rightarrow>
   uint8_t list \<Rightarrow> uint8_t list \<Rightarrow> uint8_t list \<Rightarrow> link_state \<Rightarrow>
   (int \<times> 'ks mifare_tag \<times> link_state) option" where
  "Authenticate P tag cmd key_no key PCD_RndA comm1 comm2 s =
     (if active tag = 0 then Some (FAIL, tag, s)
      else
        case auth_challenge P tag cmd key_no key comm1 s of
          None \<Rightarrow> None
        | Some (tag, s, key_length, PICC_RndB) \<Rightarrow>
            (let (tag, token) = auth_token P tag cmd key key_length PICC_RndB PCD_RndA in
             case auth_response P tag key key_length token PCD_RndA comm2 s of
               None \<Rightarrow> None
             | Some (tag, s, PICC_r_RndA, PCD_r_RndA) \<Rightarrow>
                 if take key_length PCD_r_RndA \<noteq> take key_length PICC_r_RndA
                 then Some (FAIL, tag, s)
                 else if \<not> (session_key_nonce_bytes (key_type key) \<le> key_length \<and>
                              16 \<le> length PCD_RndA)
                 then None
                 else
                   (let tag = tag\<lparr>authenticated_key_no := key_no\<rparr>;
                        tag = tag\<lparr>session_key :=
                                    MifareSessionKeyNew P (session_key tag) PCD_RndA PICC_RndB key\<rparr>;
                        tag = tag\<lparr>ivect := memset (ivect tag) 0 0 MAX_CRYPTO_BLOCK_SIZE\<rparr>;
                        tag = (case authentication_scheme tag of
                                 AS_LEGACY \<Rightarrow> tag
                               | AS_NEW \<Rightarrow>
                                   tag\<lparr>session_key := CmacGenerateSubkeys P (session_key tag)\<rparr>)
                    in Some (SUCCESS, tag, s))))"

section \<open>An example session\<close>

text \<open>
  A card session for the concrete runs below: a single-DES session key over the example
  primitives, zeroed vector and buffers of the sizes of \<open>mifare_tag\<close>; the scheme is set where
  it is used.
\<close>

definition example_key :: "uint8_t list mifare_desfire_key" where
  "example_key =
     \<lparr>key_data = [1, 2, 3, 4, 5, 6, 7, 8, 1, 2, 3, 4, 5, 6, 7, 8, 0, 0, 0, 0, 0, 0, 0, 0],
      key_type = T_DES, ks1 = [1, 2, 3, 4, 5, 6, 7, 8], ks2 = [1, 2, 3, 4, 5, 6, 7, 8],
      ks3 = [], cmac_sk1 = replicate 24 0, cmac_sk2 = replicate 24 0, aes_version = 0\<rparr>"

definition example_tag :: "authentication_scheme_t \<Rightarrow> uint8_t list mifare_tag" where
  "example_tag scheme =
     \<lparr>active = 1, uid = replicate 7 0, tag_type = 6, last_picc_error = 0, last_pcd_error = 0,
      session_key = example_key, authentication_scheme = scheme, authenticated_key_no = 0,
      ivect = replicate 16 0, cmac = replicate 16 0, crypto_buffer = replicate 79 0,
      selected_application = 0\<rparr>"

text \<open>
  A link for a concrete run of \<open>Authenticate\<close> with the legacy command: nothing sent yet;
  the first wait times out, then the card's answer to \<open>{0x0A, key_no}\<close> arrives, a frame
  with status \<open>0xAF\<close> and the eight bytes \<open>41 .. 48\<close>; sixteen waits time out, then the
  answer to the token arrives, a frame with status \<open>0x00\<close> and eight bytes. Each frame ends
  with the XOR of its bytes.
\<close>

definition example_link :: link_state where
  "example_link =
     \<lparr>uartStatus = 0, rxBuf = replicate 65 0, serial_tx = [],
      serial_rx =
        None # map Some [0xBD, 12, 0x21, 0x00, 0xAF, 41, 42, 43, 44, 45, 46, 47, 48, 0x27] @
        replicate 16 None @
        map Some [0xBD, 12, 0x21, 0x00, 0x00, 56, 57, 58, 59, 60, 61, 62, 55, 0x98]\<rparr>"

definition example_RndA :: "uint8_t list" where
  "example_RndA = [20, 21, 22, 23, 24, 25, 26, 27, 28, 29, 30, 31, 32, 33, 34, 35]"

section \<open>Properties\<close>

subsection \<open>Padded length\<close>

lemma roundup_nat:
  fixes a b :: nat
  assumes "0 < b"
  shows "a < (a div b + 1) * b"
    and "a mod b \<noteq> 0 \<Longrightarrow> (a div b + 1) * b - a < b"
    and "a div b + 1 \<le> (a div b + 1) * b"
proof -
  have e: "(a div b + 1) * b = a - a mod b + b"
    by (simp add: minus_mod_eq_div_mult algebra_simps)
  have m: "a mod b < b" using assms by simp
  have le: "a mod b \<le> a" by simp
  show "a < (a div b + 1) * b" using e m le by linarith
  show "a mod b \<noteq> 0 \<Longrightarrow> (a div b + 1) * b - a < b" using e m le by linarith
  have "(a div b + 1) * 1 \<le> (a div b + 1) * b"
    using assms by (intro mult_le_mono2) simp
  then show "a div b + 1 \<le> (a div b + 1) * b" by simp
qed

lemma PaddedDataLength_pad:
  fixes n bs :: "'a::len word"
  assumes bs: "bs \<noteq> 0"
    and pad: "n = 0 \<or> n mod bs \<noteq> 0"
    and fit: "(unat n div unat bs + 1) * unat bs < 2 ^ LENGTH('a)"
  shows "PaddedDataLength n bs = Some ((n div bs + 1) * bs)"
    and "unat ((n div bs + 1) * bs) = (unat n div unat bs + 1) * unat bs"
proof -
  let ?q = "unat n div unat bs"
  have bpos: "0 < unat bs" using bs by (simp add: unat_gt_0)
  have q1: "?q + 1 < 2 ^ LENGTH('a)"
    using roundup_nat(3) [OF bpos, of "unat n"] fit by linarith
  have u1: "unat (n div bs + 1) = ?q + 1"
    using q1 by (simp add: unat_word_ariths unat_div)
  show "unat ((n div bs + 1) * bs) = (?q + 1) * unat bs"
    using fit u1 by (simp add: unat_word_ariths)
  show "PaddedDataLength n bs = Some ((n div bs + 1) * bs)"
    using pad bs by (auto simp: PaddedDataLength_def)
qed

lemma PaddedDataLength_props:
  fixes n bs :: "'a::len word"
  assumes bs: "bs \<noteq> 0"
    and fit: "n = 0 \<or> n mod bs \<noteq> 0 \<longrightarrow>
                (unat n div unat bs + 1) * unat bs < 2 ^ LENGTH('a)"
  shows "\<exists>r. PaddedDataLength n bs = Some r \<and> 0 < unat r \<and> unat bs dvd unat r \<and>
              unat n \<le> unat r \<and>
              (if n = 0 then r = bs else unat r - unat n < unat bs)"
proof (cases "n = 0 \<or> n mod bs \<noteq> 0")
  case pad: True
  let ?q = "unat n div unat bs"
  have bpos: "0 < unat bs" using bs by (simp add: unat_gt_0)
  have fit': "(?q + 1) * unat bs < 2 ^ LENGTH('a)" using pad fit by blast
  note r = PaddedDataLength_pad(1) [OF bs pad fit']
  note u2 = PaddedDataLength_pad(2) [OF bs pad fit']
  have ge: "unat n < (?q + 1) * unat bs"
    by (rule roundup_nat(1) [OF bpos])
  show ?thesis
  proof (cases "n = 0")
    case True
    then show ?thesis using r u2 bpos bs by (simp add: PaddedDataLength_def)
  next
    case False
    then have nm: "n mod bs \<noteq> 0" using pad by simp
    have "unat n mod unat bs \<noteq> 0"
      using nm by (metis unat_mod unat_eq_zero)
    then have "(?q + 1) * unat bs - unat n < unat bs"
      by (rule roundup_nat(2) [OF bpos])
    then show ?thesis using r u2 bpos ge False by simp
  qed
next
  case False
  then have n0: "n \<noteq> 0" and nm: "n mod bs = 0" by auto
  have "unat n mod unat bs = 0" using nm by (metis unat_mod unat_0)
  then have d: "unat bs dvd unat n" by auto
  have bpos: "0 < unat bs" using bs by (simp add: unat_gt_0)
  have npos: "0 < unat n" using n0 by (simp add: unat_gt_0)
  have r: "PaddedDataLength n bs = Some n"
    using False bs by (auto simp: PaddedDataLength_def)
  show ?thesis using r d bpos npos n0 by simp
qed

text \<open>
  Claim C6, as stated: for every \<open>n\<close> and every positive \<open>block_size\<close>,
  \<open>PaddedDataLength(n, block_size)\<close> is a positive multiple of \<open>block_size\<close> that is
  at least \<open>n\<close>. With a 16-bit \<open>size_t\<close> the product wraps: 65535 bytes padded to
  blocks of 8 gives 0, which is neither positive nor at least \<open>n\<close>.
\<close>

theorem PaddedDataLength_wraps: "PaddedDataLength (65535 :: 16 word) 8 = Some 0"
  by (simp add: PaddedDataLength_def)

text \<open>
  Claim C6, amended: for every \<open>n\<close> and every positive \<open>block_size\<close> such that, whenever
  padding is added (\<open>n\<close> is 0 or not a multiple of \<open>block_size\<close>), the next multiple
  \<open>(n / block_size + 1) * block_size\<close> is representable in \<open>size_t\<close>, the result is a positive
  multiple of \<open>block_size\<close>, at least \<open>n\<close>, with result minus \<open>n\<close> below \<open>block_size\<close>,
  except that for \<open>n = 0\<close> the result is \<open>block_size\<close>.
\<close>

theorem PaddedDataLength_spec:
  fixes n bs :: "'a::len word"
  assumes "bs \<noteq> 0"
    and "n = 0 \<or> n mod bs \<noteq> 0 \<longrightarrow>
                (unat n div unat bs + 1) * unat bs < 2 ^ LENGTH('a)"
  shows "\<exists>r. PaddedDataLength n bs = Some r \<and> 0 < unat r \<and> unat bs dvd unat r \<and>
              unat n \<le> unat r \<and>
              (if n = 0 then r = bs else unat r - unat n < unat bs)"
  using assms by (rule PaddedDataLength_props)

theorem PaddedDataLength_spec_witness:
  "(8 :: 16 word) \<noteq> 0 \<and> (9 :: 16 word) mod 8 \<noteq> 0 \<and>
   (unat (9 :: 16 word) div unat (8 :: 16 word) + 1) * unat (8 :: 16 word) < 2 ^ LENGTH(16) \<and>
   PaddedDataLength (9 :: 16 word) 8 = Some 16 \<and> unat (8 :: 16 word) dvd unat (16 :: 16 word)"
  using PaddedDataLength_spec [of "8 :: 16 word" 9]
  by (simp add: PaddedDataLength_def)

subsection \<open>Checksums\<close>

lemma ff_mask16: "(0xFF :: uint16_t) = mask 8" and ff_mask32: "(0xFF :: uint32_t) = mask 8"
  by (simp_all add: mask_eq_exp_minus_1)

lemma and_ff16: "(ucast ((reg :: uint16_t) AND 0xFF) :: uint8_t) = ucast reg"
  unfolding ff_mask16 by (rule bit_word_eqI) (auto simp: bit_simps)

lemma and_ff32: "(ucast ((reg :: uint32_t) AND 0xFF) :: uint8_t) = ucast reg"
  unfolding ff_mask32 by (rule bit_word_eqI) (auto simp: bit_simps)

lemma crc16_step_own_low: "crc16_step reg (ucast reg) = drop_bit 8 reg"
  unfolding crc16_step_def Let_def
  by (simp add: and_ff16)

lemma crc32_bit_even: "\<not> bit reg 0 \<Longrightarrow> crc32_bit reg = drop_bit 1 reg"
  unfolding crc32_bit_def Let_def
  by (simp add: and_one_eq bit_0 even_iff_mod_2_eq_zero)

lemma crc32_bits_low_zero:
  "take_bit k reg = 0 \<Longrightarrow> crc32_bits k reg = drop_bit k reg"
proof (induction k arbitrary: reg)
  case 0
  then show ?case by simp
next
  case (Suc k)
  have "bit (take_bit (Suc k) reg) 0 = bit reg 0"
    by (simp add: bit_take_bit_iff)
  then have b0: "\<not> bit reg 0"
    using Suc.prems by simp
  have "take_bit k (drop_bit 1 reg) = drop_bit 1 (take_bit (Suc k) reg)"
    by (simp add: take_bit_drop_bit)
  then have "take_bit k (drop_bit 1 reg) = 0"
    using Suc.prems by simp
  then show ?case using Suc.IH [of "drop_bit 1 reg"] b0
    by (simp add: crc32_bit_even)
qed

lemma crc32_byte_own_low: "crc32_byte reg (ucast reg) = drop_bit 8 reg"
proof -
  have "take_bit 8 (reg XOR ucast (ucast reg :: uint8_t)) = 0"
    by (rule bit_word_eqI) (auto simp: bit_simps)
  moreover have "drop_bit 8 (reg XOR ucast (ucast reg :: uint8_t)) = drop_bit 8 reg"
    by (rule bit_word_eqI) (auto simp: bit_simps)
  ultimately show ?thesis
    unfolding crc32_byte_def by (simp add: crc32_bits_low_zero)
qed

lemma crc16_loop_append:
  "0 < n \<Longrightarrow> n = length xs \<Longrightarrow> 
   crc16_loop reg (xs @ ys) (n + m) =
     (if m = 0 then Some (foldl crc16_step reg xs) else crc16_loop (foldl crc16_step reg xs) ys m)"
proof (induction xs arbitrary: reg n)
  case Nil
  then show ?case by simp
next
  case (Cons x xs)
  show ?case
  proof (cases xs)
    case Nil
    then show ?thesis using Cons.prems by simp
  next
    case (Cons y ys')
    then show ?thesis using Cons.prems Cons.IH [of "length xs" "crc16_step reg x"] by simp
  qed
qed

lemma crc32_loop_append:
  "crc32_loop reg (xs @ ys) (length xs + m) = crc32_loop (foldl crc32_byte reg xs) ys m"
  by (induction xs arbitrary: reg) simp_all

lemma MifareCrc16_prefix:
  assumes "xs \<noteq> []"
  shows "MifareCrc16 (xs @ ys) (length xs) =
           Some [ucast (foldl crc16_step 0x6363 xs), ucast (drop_bit 8 (foldl crc16_step 0x6363 xs))]"
  using assms crc16_loop_append [where xs = xs and n = "length xs" and reg = "0x6363" and ys = ys and m = 0]
  by (simp add: MifareCrc16_def and_ff16)

lemma MifareCrc16_residue:
  assumes "xs \<noteq> []"
  shows "MifareCrc16 (xs @ [ucast (foldl crc16_step 0x6363 xs),
                            ucast (drop_bit 8 (foldl crc16_step 0x6363 xs))]) (length xs + 2)
         = Some [0, 0]"
proof -
  let ?r = "foldl crc16_step 0x6363 xs"
  have "crc16_loop 0x6363 (xs @ [ucast ?r, ucast (drop_bit 8 ?r)]) (length xs + 2)
          = crc16_loop ?r [ucast ?r, ucast (drop_bit 8 ?r)] 2"
    using assms crc16_loop_append [where xs = xs and n = "length xs" and reg = "0x6363" and m = 2] by simp
  also have "\<dots> = Some (drop_bit 8 (drop_bit 8 ?r))"
    by (simp add: crc16_step_own_low)
  also have "drop_bit 8 (drop_bit 8 ?r) = 0"
    by simp
  finally show ?thesis
    by (simp add: MifareCrc16_def)
qed

lemma MifareCrc32_prefix:
  "MifareCrc32 (xs @ ys) (length xs) =
     Some (map (\<lambda>byte. ucast (drop_bit (8 * byte) (foldl crc32_byte 0xFFFFFFFF xs))) [0 ..< 4])"
  using crc32_loop_append [where reg = "0xFFFFFFFF" and xs = xs and ys = ys and m = 0]
  by (simp add: MifareCrc32_def and_ff32)

lemma MifareCrc32_residue:
  "MifareCrc32 (xs @ map (\<lambda>byte. ucast (drop_bit (8 * byte) (foldl crc32_byte 0xFFFFFFFF xs))) [0 ..< 4])
      (length xs + 4) = Some [0, 0, 0, 0]"
proof -
  let ?r = "foldl crc32_byte 0xFFFFFFFF xs"
  let ?crc = "map (\<lambda>byte. ucast (drop_bit (8 * byte) ?r) :: uint8_t) [0 ..< 4]"
  have up: "[0 ..< 4] = [0, 1, 2, 3]" by (simp add: upt_rec)
  have "crc32_loop 0xFFFFFFFF (xs @ ?crc) (length xs + 4) = crc32_loop ?r ?crc 4"
    by (rule crc32_loop_append)
  also have "\<dots> = Some (drop_bit 8 (drop_bit 8 (drop_bit 8 (drop_bit 8 ?r))))"
    using crc32_byte_own_low [of "?r"] crc32_byte_own_low [of "drop_bit 8 ?r"]
      crc32_byte_own_low [of "drop_bit 16 ?r"] crc32_byte_own_low [of "drop_bit 24 ?r"]
    by (simp add: up numeral_eq_Suc)
  also have "drop_bit 8 (drop_bit 8 (drop_bit 8 (drop_bit 8 ?r))) = 0"
    by simp
  finally show ?thesis
    by (simp add: MifareCrc32_def up)
qed

text \<open>
  Claim C5: for every non-empty data buffer, appending the checksum with the \<open>Append\<close>
  variant (into the two, respectively four, bytes of space that follow the data) and running
  the same checksum over data plus checksum gives zero, for \<open>MifareCrc16\<close> and for
  \<open>MifareCrc32\<close>.
\<close>

theorem crc_append_residue_zero:
  assumes "data \<noteq> []"
  shows "(\<exists>crc. MifareCrc16 data (length data) = Some crc \<and>
                MifareCrc16Append (data @ [s0, s1]) (length data) = Some (data @ crc) \<and>
                MifareCrc16 (data @ crc) (length data + 2) = Some [0, 0]) \<and>
         (\<exists>crc. MifareCrc32 data (length data) = Some crc \<and>
                MifareCrc32Append (data @ [t0, t1, t2, t3]) (length data) = Some (data @ crc) \<and>
                MifareCrc32 (data @ crc) (length data + 4) = Some [0, 0, 0, 0])"
proof (intro conjI)
  show "\<exists>crc. MifareCrc16 data (length data) = Some crc \<and>
                MifareCrc16Append (data @ [s0, s1]) (length data) = Some (data @ crc) \<and>
                MifareCrc16 (data @ crc) (length data + 2) = Some [0, 0]"
    using MifareCrc16_prefix [OF assms, of "[]"] MifareCrc16_prefix [OF assms, of "[s0, s1]"]
      MifareCrc16_residue [OF assms]
    by (simp add: MifareCrc16Append_def)
  show "\<exists>crc. MifareCrc32 data (length data) = Some crc \<and>
                MifareCrc32Append (data @ [t0, t1, t2, t3]) (length data) = Some (data @ crc) \<and>
                MifareCrc32 (data @ crc) (length data + 4) = Some [0, 0, 0, 0]"
    using MifareCrc32_prefix [of data "[]"] MifareCrc32_prefix [of data "[t0, t1, t2, t3]"]
      MifareCrc32_residue [of data]
    by (simp add: MifareCrc32Append_def)
qed

theorem crc_append_residue_zero_witness:
  "[0x12, 0x34 :: uint8_t] \<noteq> [] \<and>
   MifareCrc16Append [0x12, 0x34, 0, 0] 2 = Some [0x12, 0x34, 0x26, 0xCF] \<and>
   MifareCrc16 [0x12, 0x34, 0x26, 0xCF] 4 = Some [0, 0] \<and>
   (\<exists>crc. MifareCrc32Append [0x12, 0x34, 0, 0, 0, 0] 2 = Some ([0x12, 0x34] @ crc) \<and>
          MifareCrc32 ([0x12, 0x34] @ crc) 6 = Some [0, 0, 0, 0])"
proof -
  have c16: "MifareCrc16 [0x12, 0x34] 2 = Some [0x26, 0xCF]"
    by (simp add: MifareCrc16_def crc16_step_def)
  show ?thesis
    using crc_append_residue_zero [of "[0x12, 0x34]" 0 0 0 0 0 0] c16
    by (auto simp: numeral_eq_Suc)
qed

subsection \<open>Key versions\<close>

lemma upt8: "[0 ..< 8] = [0, 1, 2, 3, 4, 5, 6, 7]"
  by (simp add: upt_rec)

lemma fe_not1: "(0xfe :: uint8_t) = NOT 1" by simp

lemma version_bit_low:
  "push_bit (7 - n) ((((x :: uint8_t) AND 0xfe) OR version_bit v n) AND 1) = v AND push_bit (7 - n) 1"
  unfolding fe_not1 version_bit_def
  by (rule bit_word_eqI) (auto simp: bit_simps)

lemma not_version_bit:
  "((x :: uint8_t) AND 0xfe) OR NOT (version_bit v n) = NOT (version_bit v n)"
  unfolding fe_not1 version_bit_def
  by (rule bit_word_eqI) (auto simp: bit_simps)

lemma set_version_pass_length [simp]:
  "length (set_version_pass ty v d n) = length d"
  by (simp add: set_version_pass_def Let_def)

lemma set_version_pass_first_half:
  assumes "n < 8" "j < 8" "16 \<le> length d"
  shows "set_version_pass ty v d n ! j =
           (if j = n then (d ! n AND 0xfe) OR version_bit v n else d ! j)"
  using assms by (simp add: set_version_pass_def Let_def)

lemma set_version_pass_second_half:
  assumes "n < 8" "j < 8" "16 \<le> length d" "ty \<noteq> T_DES"
  shows "set_version_pass ty v d n ! (j + 8) =
           (if j = n then NOT (version_bit v n) else d ! (j + 8))"
  using assms by (simp add: set_version_pass_def Let_def not_version_bit)

lemma set_version_passes:
  assumes "16 \<le> length d" "m \<le> 8"
  shows "length (foldl (set_version_pass ty v) d [0 ..< m]) = length d \<and>
         (\<forall>j < 8. foldl (set_version_pass ty v) d [0 ..< m] ! j =
            (if j < m then (d ! j AND 0xfe) OR version_bit v j else d ! j)) \<and>
         (ty \<noteq> T_DES \<longrightarrow>
           (\<forall>j < 8. foldl (set_version_pass ty v) d [0 ..< m] ! (j + 8) =
              (if j < m then NOT (version_bit v j) else d ! (j + 8))))"
  using assms(2)
proof (induction m)
  case 0
  then show ?case by simp
next
  case (Suc m)
  then have IH: "length (foldl (set_version_pass ty v) d [0 ..< m]) = length d"
    "\<And>j. j < 8 \<Longrightarrow> foldl (set_version_pass ty v) d [0 ..< m] ! j =
            (if j < m then (d ! j AND 0xfe) OR version_bit v j else d ! j)"
    "\<And>j. ty \<noteq> T_DES \<Longrightarrow> j < 8 \<Longrightarrow> foldl (set_version_pass ty v) d [0 ..< m] ! (j + 8) =
              (if j < m then NOT (version_bit v j) else d ! (j + 8))"
    by simp_all
  have m: "m < 8" using Suc.prems by simp
  show ?case
    using assms(1) m IH
    by (auto simp: set_version_pass_first_half set_version_pass_second_half less_Suc_eq)
qed

lemma version_bits_join:
  "((((((((v :: uint8_t) AND 128 OR v AND 64) OR v AND 32) OR v AND 16) OR v AND 8) OR v AND 4) OR
      v AND 2) OR v AND 1) = v"
proof -
  have full: "(255 :: uint8_t) = - 1" by simp
  have "(((((((v AND 128 OR v AND 64) OR v AND 32) OR v AND 16) OR v AND 8) OR v AND 4) OR
      v AND 2) OR v AND 1) = v AND (((((((128 OR 64) OR 32) OR 16) OR 8) OR 4) OR 2) OR 1)"
    by (simp only: bit.conj_disj_distrib)
  also have "\<dots> = v" by (simp add: full)
  finally show ?thesis .
qed

lemma GetVersion_SetVersion:
  assumes "16 \<le> length (key_data key)"
  shows "MifareKeyGetVersion (MifareKeySetVersion key v) = v"
proof -
  let ?d = "foldl (set_version_pass (key_type key) v) (key_data key) [0 ..< 8]"
  have d: "\<And>j. j < 8 \<Longrightarrow> ?d ! j = (key_data key ! j AND 0xfe) OR version_bit v j"
    using set_version_passes [OF assms, of 8 "key_type key" v] by simp
  have "MifareKeyGetVersion (MifareKeySetVersion key v) =
          foldl (\<lambda>version n. version OR push_bit (7 - n) (?d ! n AND 1)) 0 [0, 1, 2, 3, 4, 5, 6, 7]"
    by (simp add: MifareKeyGetVersion_def MifareKeySetVersion_def upt8)
  also have "\<dots> = (((((((v AND 128 OR v AND 64) OR v AND 32) OR v AND 16) OR v AND 8) OR v AND 4) OR
      v AND 2) OR v AND 1)"
    using version_bit_low [of 0 _ v] version_bit_low [of 1 _ v] version_bit_low [of 2 _ v]
      version_bit_low [of 3 _ v] version_bit_low [of 4 _ v] version_bit_low [of 5 _ v]
      version_bit_low [of 6 _ v] version_bit_low [of 7 _ v]
    by (simp add: d)
  finally show ?thesis by (simp only: version_bits_join)
qed

lemma memcpy_length [simp]:
  "off + n \<le> length dst \<Longrightarrow> n \<le> length src \<Longrightarrow> length (memcpy dst off src n) = length dst"
  by (simp add: memcpy_def)

lemma memset_length [simp]:
  "off + n \<le> length dst \<Longrightarrow> length (memset dst off c n) = length dst"
  by (simp add: memset_def)

lemma UpdateKeySchedules_data [simp]:
  "key_data (UpdateKeySchedules P key) = key_data key"
  by (simp add: UpdateKeySchedules_def Let_def)

lemma fresh_key_data_length:
  assumes "length (key_data key0) = 24"
  shows "8 \<le> length v8 \<Longrightarrow> length (key_data (MifareDesKeyNew P key0 v8)) = 24"
    and "8 \<le> length v8 \<Longrightarrow> length (key_data (MifareDesKeyNewWithVersion P key0 v8)) = 24"
    and "16 \<le> length v16 \<Longrightarrow> length (key_data (Mifare3DesKeyNew P key0 v16)) = 24"
    and "16 \<le> length v16 \<Longrightarrow> length (key_data (Mifare3DesKeyNewWithVersion P key0 v16)) = 24"
    and "24 \<le> length v24 \<Longrightarrow> length (key_data (Mifare3k3DesKeyNew P key0 v24)) = 24"
    and "24 \<le> length v24 \<Longrightarrow> length (key_data (Mifare3k3DesKeyNewWithVersion P key0 v24)) = 24"
  using assms
  by (simp_all add: MifareDesKeyNew_def MifareDesKeyNewWithVersion_def Mifare3DesKeyNew_def
      Mifare3DesKeyNewWithVersion_def Mifare3k3DesKeyNew_def Mifare3k3DesKeyNewWithVersion_def
      Let_def)

text \<open>
  Claim C8: on every freshly created DES-family key (each of the six constructors, over a
  key structure with its 24 data bytes and key material of the constructor's length),
  \<open>MifareKeyGetVersion\<close> returns \<open>v\<close> after \<open>MifareKeySetVersion(key, v)\<close>. The witness is
  the scenario of the claim: a key built from 16 bytes \<open>0xFF\<close>, version \<open>0xAA\<close> set and
  read back.
\<close>

theorem key_version_roundtrip:
  assumes "length (key_data key0) = 24"
    and "8 \<le> length v8" and "16 \<le> length v16" and "24 \<le> length v24"
  shows "MifareKeyGetVersion (MifareKeySetVersion (MifareDesKeyNew P key0 v8) v) = v \<and>
    MifareKeyGetVersion (MifareKeySetVersion (MifareDesKeyNewWithVersion P key0 v8) v) = v \<and>
    MifareKeyGetVersion (MifareKeySetVersion (Mifare3DesKeyNew P key0 v16) v) = v \<and>
    MifareKeyGetVersion (MifareKeySetVersion (Mifare3DesKeyNewWithVersion P key0 v16) v) = v \<and>
    MifareKeyGetVersion (MifareKeySetVersion (Mifare3k3DesKeyNew P key0 v24) v) = v \<and>
    MifareKeyGetVersion (MifareKeySetVersion (Mifare3k3DesKeyNewWithVersion P key0 v24) v) = v"
  using assms fresh_key_data_length [OF assms(1)]
  by (simp add: GetVersion_SetVersion)

theorem key_version_roundtrip_witness:
  "length (key_data \<lparr>key_data = replicate 24 0, key_type = T_DES, ks1 = (), ks2 = (), ks3 = (),
                     cmac_sk1 = [], cmac_sk2 = [], aes_version = 0\<rparr>) = 24 \<and>
   8 \<le> length (replicate 8 (0xFF :: uint8_t)) \<and>
   16 \<le> length (replicate 16 (0xFF :: uint8_t)) \<and>
   24 \<le> length (replicate 24 (0xFF :: uint8_t)) \<and>
   MifareKeyGetVersion (MifareKeySetVersion
     (Mifare3DesKeyNewWithVersion \<lparr>DES_set_key = (\<lambda>k. ()), DES_ecb_encrypt = (\<lambda>b k e. b),
                                   AES_encrypt = (\<lambda>k b. b), AES_decrypt = (\<lambda>k b. b)\<rparr>
        \<lparr>key_data = replicate 24 0, key_type = T_DES, ks1 = (), ks2 = (), ks3 = (),
         cmac_sk1 = [], cmac_sk2 = [], aes_version = 0\<rparr>
        (replicate 16 0xFF)) 0xAA) = 0xAA"
  using key_version_roundtrip [of "\<lparr>key_data = replicate 24 0, key_type = T_DES, ks1 = (), ks2 = (), ks3 = (),
         cmac_sk1 = [], cmac_sk2 = [], aes_version = 0\<rparr>" "replicate 8 0xFF" "replicate 16 0xFF" "replicate 24 0xFF"
         "\<lparr>DES_set_key = (\<lambda>k. ()), DES_ecb_encrypt = (\<lambda>b k e. b),
                                   AES_encrypt = (\<lambda>k b. b), AES_decrypt = (\<lambda>k b. b)\<rparr>" "0xAA"]
  by simp

text \<open>
  What the code stores in the second half of a key wider than single DES: the complement
  of the whole byte \<open>version_bit\<close>, that is \<open>0xFF\<close> for a version bit 0 and \<open>0xFE\<close> for a
  version bit 1, whatever the byte held before.
\<close>

lemma MifareKeySetVersion_second_half:
  assumes "16 \<le> length (key_data key)" "key_type key \<noteq> T_DES" "n < 8"
  shows "key_data (MifareKeySetVersion key v) ! (n + 8) = NOT (version_bit v n)"
  using set_version_passes [OF assms(1), of 8 "key_type key" v] assms(2,3)
  by (simp add: MifareKeySetVersion_def)

text \<open>
  Claim C7 says that on a key wider than single DES \<open>MifareKeySetVersion\<close> changes only the
  low bit of each byte of the second half. On a 3DES key of sixteen zero bytes and version
  \<open>0x00\<close> the code leaves \<open>0xFF\<close> in each byte of the second half, where the claim gives
  \<open>0x01\<close>.
\<close>

theorem MifareKeySetVersion_overwrites_second_half:
  "key_data (MifareKeySetVersion
      \<lparr>key_data = [0, 0, 0, 0, 0, 0, 0, 0, 0, 0, 0, 0, 0, 0, 0, 0, 0, 0, 0, 0, 0, 0, 0, 0],
       key_type = T_3DES, ks1 = (), ks2 = (), ks3 = (),
       cmac_sk1 = [], cmac_sk2 = [], aes_version = 0\<rparr> 0x00)
   = [0, 0, 0, 0, 0, 0, 0, 0, 0xFF, 0xFF, 0xFF, 0xFF, 0xFF, 0xFF, 0xFF, 0xFF,
      0, 0, 0, 0, 0, 0, 0, 0]"
  by code_simp

subsection \<open>The block-chaining engine\<close>

declare cipher_blocks.simps [simp del]

lemma KeyBlockSize_cases: "KeyBlockSize key = 8 \<or> KeyBlockSize key = 16"
  by (simp add: KeyBlockSize_def split: key_type.splits)

lemma KeyBlockSize_pos [simp]: "0 < KeyBlockSize key"
  using KeyBlockSize_cases [of key] by auto

lemma KeyBlockSize_le [simp]: "KeyBlockSize key \<le> 16"
  using KeyBlockSize_cases [of key] by auto

lemma Xor_length [simp]: "n \<le> length iv \<Longrightarrow> length (Xor iv data n) = length data"
  by (simp add: Xor_def)

lemma primitives_invertibleD:
  assumes "primitives_invertible P"
  shows "length b = 8 \<Longrightarrow> length (DES_ecb_encrypt P b ks e) = 8"
    and "length b = 8 \<Longrightarrow> DES_ecb_encrypt P (DES_ecb_encrypt P b ks True) ks False = b"
    and "length b = 8 \<Longrightarrow> DES_ecb_encrypt P (DES_ecb_encrypt P b ks False) ks True = b"
    and "length b = 16 \<Longrightarrow> length (AES_encrypt P k b) = 16"
    and "length b = 16 \<Longrightarrow> length (AES_decrypt P k b) = 16"
    and "length b = 16 \<Longrightarrow> AES_decrypt P k (AES_encrypt P k b) = b"
proof -
  have des: "\<And>ks b e. length b = 8 \<Longrightarrow> length (DES_ecb_encrypt P b ks e) = 8 \<and>
        DES_ecb_encrypt P (DES_ecb_encrypt P b ks e) ks (\<not> e) = b"
    and aes: "\<And>k b. length b = 16 \<Longrightarrow> 
        length (AES_encrypt P k b) = 16 \<and> length (AES_decrypt P k b) = 16 \<and>
        AES_decrypt P k (AES_encrypt P k b) = b"
    using assms unfolding primitives_invertible_def by blast+
  show "length b = 8 \<Longrightarrow> length (DES_ecb_encrypt P b ks e) = 8" using des by blast
  show "length b = 8 \<Longrightarrow> DES_ecb_encrypt P (DES_ecb_encrypt P b ks True) ks False = b"
    using des [of b ks True] by simp
  show "length b = 8 \<Longrightarrow> DES_ecb_encrypt P (DES_ecb_encrypt P b ks False) ks True = b"
    using des [of b ks False] by simp
  show "length b = 16 \<Longrightarrow> length (AES_encrypt P k b) = 16" using aes by blast
  show "length b = 16 \<Longrightarrow> length (AES_decrypt P k b) = 16" using aes by blast
  show "length b = 16 \<Longrightarrow> AES_decrypt P k (AES_encrypt P k b) = b" using aes by blast
qed

text \<open>What the switch leaves in \<open>edata\<close> and in \<open>data\<close>, for a buffer that holds a whole block.\<close>

lemma cipher_switch_edata_length:
  assumes "primitives_invertible P" "KeyBlockSize key \<le> length data"
  shows "length (snd (cipher_switch P key operation data)) = KeyBlockSize key"
  using assms(2)
  by (auto simp: cipher_switch_def KeyBlockSize_def Let_def memcpy_def
      primitives_invertibleD [OF assms(1)]
      split: key_type.splits mifare_crypto_operation.splits)

lemma cipher_switch_data_rest:
  assumes "primitives_invertible P" "KeyBlockSize key \<le> length data"
  shows "drop (KeyBlockSize key) (fst (cipher_switch P key operation data)) =
         drop (KeyBlockSize key) data"
  using assms(2)
  by (auto simp: cipher_switch_def KeyBlockSize_def Let_def memcpy_def
      primitives_invertibleD [OF assms(1)]
      split: key_type.splits mifare_crypto_operation.splits)

lemma cipher_switch_block_only:
  assumes "primitives_invertible P" "KeyBlockSize key \<le> length data"
  shows "snd (cipher_switch P key operation data) =
         snd (cipher_switch P key operation (take (KeyBlockSize key) data))"
  using assms(2)
  by (auto simp: cipher_switch_def KeyBlockSize_def Let_def memcpy_def
      primitives_invertibleD [OF assms(1)]
      split: key_type.splits mifare_crypto_operation.splits)

lemma cipher_switch_inverse:
  assumes "primitives_invertible P" "length b = KeyBlockSize key"
  shows "snd (cipher_switch P key MCO_DECIPHER (snd (cipher_switch P key MCO_ENCIPHER b))) = b"
  using assms(2)
  by (auto simp: cipher_switch_def KeyBlockSize_def Let_def memcpy_def
      primitives_invertibleD [OF assms(1)]
      split: key_type.splits)

lemma map2_xor_cancel:
  "length a = length b \<Longrightarrow> map2 (XOR) (map2 (XOR) a b) b = (a :: uint8_t list)"
  by (induction a b rule: list_induct2) (simp_all add: xor.assoc)

lemma single_block_send:
  assumes P: "primitives_invertible P"
    and d: "KeyBlockSize key \<le> length data" and v: "KeyBlockSize key \<le> length iv"
  shows "MifareCipherSingleBlock P key data iv MCD_SEND operation (KeyBlockSize key) =
           (let e = snd (cipher_switch P key operation
                      (map2 (XOR) (take (KeyBlockSize key) data) (take (KeyBlockSize key) iv)))
            in (e @ drop (KeyBlockSize key) data, e @ drop (KeyBlockSize key) iv))"
proof -
  let ?bs = "KeyBlockSize key"
  let ?x = "Xor iv data ?bs"
  have lx: "?bs \<le> length ?x" using d v by simp
  have tx: "take ?bs ?x = map2 (XOR) (take ?bs data) (take ?bs iv)"
    using d v by (simp add: Xor_def)
  have dx: "drop ?bs ?x = drop ?bs data"
    using d v by (simp add: Xor_def)
  obtain d2 e where sw: "cipher_switch P key operation ?x = (d2, e)"
    by (cases "cipher_switch P key operation ?x")
  have le: "length e = ?bs"
    using cipher_switch_edata_length [OF P lx, of operation] sw by simp
  have d2: "drop ?bs d2 = drop ?bs data"
    using cipher_switch_data_rest [OF P lx, of operation] sw dx by simp
  have e: "e = snd (cipher_switch P key operation (map2 (XOR) (take ?bs data) (take ?bs iv)))"
    using cipher_switch_block_only [OF P lx, of operation] sw tx by simp
  show ?thesis
    using sw le d2 e [symmetric]
    by (simp add: MifareCipherSingleBlock_def Let_def memcpy_def)
qed

lemma single_block_receive:
  assumes P: "primitives_invertible P"
    and d: "KeyBlockSize key \<le> length data" and v: "KeyBlockSize key \<le> length iv"
  shows "MifareCipherSingleBlock P key data iv MCD_RECEIVE operation (KeyBlockSize key) =
           (map2 (XOR) (snd (cipher_switch P key operation (take (KeyBlockSize key) data)))
                       (take (KeyBlockSize key) iv) @ drop (KeyBlockSize key) data,
            take (KeyBlockSize key) data @ drop (KeyBlockSize key) iv)"
proof -
  let ?bs = "KeyBlockSize key"
  obtain d2 e where sw: "cipher_switch P key operation data = (d2, e)"
    by (cases "cipher_switch P key operation data")
  have le: "length e = ?bs"
    using cipher_switch_edata_length [OF P d, of operation] sw by simp
  have d2: "drop ?bs d2 = drop ?bs data"
    using cipher_switch_data_rest [OF P d, of operation] sw by simp
  have e: "e = snd (cipher_switch P key operation (take ?bs data))"
    using cipher_switch_block_only [OF P d, of operation] sw by simp
  show ?thesis
    using sw le d2 e [symmetric] v
    by (simp add: MifareCipherSingleBlock_def Let_def memcpy_def Xor_def)
qed

lemma cipher_blocks_shift:
  "cipher_blocks P key iv (pre @ d) (length pre + m) direction operation (length pre + off) =
     (let (iv', r) = cipher_blocks P key iv d m direction operation off in (iv', pre @ r))"
proof (induction P key iv d m direction operation off rule: cipher_blocks.induct)
  case (1 P key iv d m direction operation off)
  show ?case
  proof (cases "off < m")
    case True
    obtain block iv1 where sb:
      "MifareCipherSingleBlock P key (drop off d) iv direction operation (KeyBlockSize key) = (block, iv1)"
      by (cases "MifareCipherSingleBlock P key (drop off d) iv direction operation (KeyBlockSize key)")
    have IH: "cipher_blocks P key iv1 (pre @ take off d @ block) (length pre + m) direction operation
                (length pre + (off + KeyBlockSize key)) =
              (let (iv', r) = cipher_blocks P key iv1 (take off d @ block) m direction operation
                                (off + KeyBlockSize key)
               in (iv', pre @ r))"
      using "1.IH" [OF True refl sb [symmetric]] by simp
    show ?thesis
      using True sb IH
      by (subst cipher_blocks.simps, subst (2) cipher_blocks.simps) (simp add: add.assoc)
  next
    case False
    then show ?thesis
      by (subst cipher_blocks.simps, subst (2) cipher_blocks.simps) simp
  qed
qed

lemma cipher_blocks_done:
  "cipher_blocks P key iv data 0 direction operation 0 = (iv, data)"
  by (subst cipher_blocks.simps) simp

lemma cipher_blocks_first:
  assumes n: "KeyBlockSize key \<le> n"
    and sb: "MifareCipherSingleBlock P key data iv direction operation (KeyBlockSize key) = (e @ rest, iv1)"
    and e: "length e = KeyBlockSize key"
  shows "cipher_blocks P key iv data n direction operation 0 =
           (let (iv2, r) = cipher_blocks P key iv1 rest (n - KeyBlockSize key) direction operation 0
            in (iv2, e @ r))"
proof -
  have "0 < n" using n KeyBlockSize_pos [of key] by linarith
  then have "cipher_blocks P key iv data n direction operation 0 =
          cipher_blocks P key iv1 (e @ rest) n direction operation (KeyBlockSize key)"
    using sb by (subst cipher_blocks.simps) simp
  also have "\<dots> = cipher_blocks P key iv1 (e @ rest) (length e + (n - KeyBlockSize key))
                      direction operation (length e + 0)"
    using n e by simp
  also have "\<dots> = (let (iv2, r) = cipher_blocks P key iv1 rest (n - KeyBlockSize key) direction operation 0
            in (iv2, e @ r))"
    by (rule cipher_blocks_shift)
  finally show ?thesis .
qed

lemma cipher_blocks_roundtrip:
  assumes P: "primitives_invertible P"
  shows "length data = k * KeyBlockSize key \<Longrightarrow> KeyBlockSize key \<le> length iv \<Longrightarrow>
         length (snd (cipher_blocks P key iv data (length data) MCD_SEND MCO_ENCIPHER 0)) = length data \<and>
         snd (cipher_blocks P key iv
                (snd (cipher_blocks P key iv data (length data) MCD_SEND MCO_ENCIPHER 0))
                (length data) MCD_RECEIVE MCO_DECIPHER 0) = data"
proof (induction k arbitrary: iv data)
  case 0
  then show ?case by (simp add: cipher_blocks_done)
next
  case (Suc k)
  let ?bs = "KeyBlockSize key"
  let ?b = "take ?bs data"
  let ?rest = "drop ?bs data"
  let ?x = "map2 (XOR) ?b (take ?bs iv)"
  let ?e = "snd (cipher_switch P key MCO_ENCIPHER ?x)"
  let ?iv1 = "?e @ drop ?bs iv"
  have ld: "?bs \<le> length data" using Suc.prems(1) by simp
  have lrest: "length ?rest = k * ?bs" using Suc.prems(1) by simp
  have lx: "length ?x = ?bs" using ld Suc.prems(2) by simp
  have "?bs \<le> length ?x" using lx by linarith
  then have le: "length ?e = ?bs"
    by (rule cipher_switch_edata_length [OF P])
  have liv1: "?bs \<le> length ?iv1" using le by simp
  obtain iv2 r where enc_rest:
    "cipher_blocks P key ?iv1 ?rest (length ?rest) MCD_SEND MCO_ENCIPHER 0 = (iv2, r)"
    by (cases "cipher_blocks P key ?iv1 ?rest (length ?rest) MCD_SEND MCO_ENCIPHER 0")
  have IH: "length r = length ?rest"
    "snd (cipher_blocks P key ?iv1 r (length ?rest) MCD_RECEIVE MCO_DECIPHER 0) = ?rest"
    using Suc.IH [OF lrest liv1] enc_rest by simp_all
  have sb_send: "MifareCipherSingleBlock P key data iv MCD_SEND MCO_ENCIPHER ?bs = (?e @ ?rest, ?iv1)"
    using single_block_send [OF P ld Suc.prems(2), of MCO_ENCIPHER] by (simp add: Let_def)
  have enc: "cipher_blocks P key iv data (length data) MCD_SEND MCO_ENCIPHER 0 = (iv2, ?e @ r)"
    using cipher_blocks_first [OF ld sb_send le] enc_rest by simp
  have de: "snd (cipher_switch P key MCO_DECIPHER ?e) = ?x"
    using cipher_switch_inverse [OF P, of ?x key] lx by simp
  have xx: "map2 (XOR) ?x (take ?bs iv) = ?b"
    using map2_xor_cancel [of ?b "take ?bs iv"] ld Suc.prems(2) by simp
  have sb_recv: "MifareCipherSingleBlock P key (?e @ r) iv MCD_RECEIVE MCO_DECIPHER ?bs = (?b @ r, ?iv1)"
    using single_block_receive [OF P _ Suc.prems(2), of "?e @ r" MCO_DECIPHER] le de xx
    by simp
  have lb: "length ?b = ?bs" using ld by simp
  have dec: "cipher_blocks P key iv (?e @ r) (length data) MCD_RECEIVE MCO_DECIPHER 0 =
         (let (iv3, r') = cipher_blocks P key ?iv1 r (length ?rest) MCD_RECEIVE MCO_DECIPHER 0
          in (iv3, ?b @ r'))"
    using cipher_blocks_first [OF ld sb_recv lb] by simp
  have "snd (cipher_blocks P key iv (?e @ r) (length data) MCD_RECEIVE MCO_DECIPHER 0) = ?b @ ?rest"
    using dec IH(2) by (simp add: Let_def split_beta)
  then show ?case
    using enc IH(1) le ld by simp
qed

text \<open>
  Claim C1: for a key of any of the four algorithms and a buffer whose length is a multiple
  of the key's block size, enciphering in the send direction under an initial vector and
  deciphering the result in the receive direction under a copy of the same vector gives
  the buffer back. The primitives are assumed to undo each other on single blocks.
\<close>

theorem cipher_chained_roundtrip:
  assumes "primitives_invertible P"
    and "KeyBlockSize key dvd length data"
    and "KeyBlockSize key \<le> length iv"
  shows "snd (MifareCipherBlocksChained P None (Some key) (Some iv)
                (snd (MifareCipherBlocksChained P None (Some key) (Some iv) data (length data)
                        MCD_SEND MCO_ENCIPHER))
                (length data) MCD_RECEIVE MCO_DECIPHER) = data"
proof -
  obtain k where k: "length data = k * KeyBlockSize key"
    using assms(2) by (auto simp: dvd_def mult.commute)
  show ?thesis
    using cipher_blocks_roundtrip [OF assms(1) k assms(3)]
    by (simp add: MifareCipherBlocksChained_def Let_def split_beta)
qed

lemma example_primitives_invertible: "primitives_invertible example_primitives"
  by (auto simp: primitives_invertible_def example_primitives_def comp_def intro: map_idI)

theorem cipher_chained_roundtrip_witness:
  "primitives_invertible example_primitives \<and>
   KeyBlockSize
     \<lparr>key_data = [1, 2, 3, 4, 5, 6, 7, 8, 9, 10, 11, 12, 13, 14, 15, 16, 0, 0, 0, 0, 0, 0, 0, 0],
      key_type = T_3DES, ks1 = [1, 2, 3, 4, 5, 6, 7, 8 :: uint8_t],
      ks2 = [9, 10, 11, 12, 13, 14, 15, 16],
      ks3 = [], cmac_sk1 = [], cmac_sk2 = [], aes_version = 0\<rparr>
     dvd length [10, 20, 30, 40, 50, 60, 70, 80, 90, 100, 110, 120, 130, 140, 150, 160 :: uint8_t] \<and>
   KeyBlockSize
     \<lparr>key_data = [1, 2, 3, 4, 5, 6, 7, 8, 9, 10, 11, 12, 13, 14, 15, 16, 0, 0, 0, 0, 0, 0, 0, 0],
      key_type = T_3DES, ks1 = [1, 2, 3, 4, 5, 6, 7, 8 :: uint8_t],
      ks2 = [9, 10, 11, 12, 13, 14, 15, 16],
      ks3 = [], cmac_sk1 = [], cmac_sk2 = [], aes_version = 0\<rparr>
     \<le> length [1, 1, 1, 1, 1, 1, 1, 1 :: uint8_t] \<and>
   snd (MifareCipherBlocksChained example_primitives None
          (Some \<lparr>key_data = [1, 2, 3, 4, 5, 6, 7, 8, 9, 10, 11, 12, 13, 14, 15, 16, 0, 0, 0, 0, 0, 0, 0, 0],
                 key_type = T_3DES, ks1 = [1, 2, 3, 4, 5, 6, 7, 8],
                 ks2 = [9, 10, 11, 12, 13, 14, 15, 16],
                 ks3 = [], cmac_sk1 = [], cmac_sk2 = [], aes_version = 0\<rparr>)
          (Some [1, 1, 1, 1, 1, 1, 1, 1])
          [10, 20, 30, 40, 50, 60, 70, 80, 90, 100, 110, 120, 130, 140, 150, 160] 16
          MCD_SEND MCO_ENCIPHER)
     = [239, 249, 3, 13, 23, 33, 43, 53, 153, 129, 81, 89, 121, 145, 161, 121] \<and>
   snd (MifareCipherBlocksChained example_primitives None
          (Some \<lparr>key_data = [1, 2, 3, 4, 5, 6, 7, 8, 9, 10, 11, 12, 13, 14, 15, 16, 0, 0, 0, 0, 0, 0, 0, 0],
                 key_type = T_3DES, ks1 = [1, 2, 3, 4, 5, 6, 7, 8],
                 ks2 = [9, 10, 11, 12, 13, 14, 15, 16],
                 ks3 = [], cmac_sk1 = [], cmac_sk2 = [], aes_version = 0\<rparr>)
          (Some [1, 1, 1, 1, 1, 1, 1, 1])
          [239, 249, 3, 13, 23, 33, 43, 53, 153, 129, 81, 89, 121, 145, 161, 121] 16
          MCD_RECEIVE MCO_DECIPHER)
     = [10, 20, 30, 40, 50, 60, 70, 80, 90, 100, 110, 120, 130, 140, 150, 160]"
proof -
  let ?K = "\<lparr>key_data = [1, 2, 3, 4, 5, 6, 7, 8, 9, 10, 11, 12, 13, 14, 15, 16, 0, 0, 0, 0, 0, 0, 0, 0],
                 key_type = T_3DES, ks1 = [1, 2, 3, 4, 5, 6, 7, 8 :: uint8_t],
                 ks2 = [9, 10, 11, 12, 13, 14, 15, 16],
                 ks3 = [], cmac_sk1 = [], cmac_sk2 = [], aes_version = 0\<rparr>"
  let ?D = "[10, 20, 30, 40, 50, 60, 70, 80, 90, 100, 110, 120, 130, 140, 150, 160 :: uint8_t]"
  let ?V = "[1, 1, 1, 1, 1, 1, 1, 1 :: uint8_t]"
  have bs: "KeyBlockSize ?K = 8" by (simp add: KeyBlockSize_def)
  have l: "length ?D = 16" by simp
  have h2: "KeyBlockSize ?K dvd length ?D" unfolding bs l by simp
  have h3: "KeyBlockSize ?K \<le> length ?V" unfolding bs by simp
  have enc: "snd (MifareCipherBlocksChained example_primitives None (Some ?K) (Some ?V) ?D 16
                MCD_SEND MCO_ENCIPHER)
             = [239, 249, 3, 13, 23, 33, 43, 53, 153, 129, 81, 89, 121, 145, 161, 121]"
    by code_simp
  show ?thesis
    using cipher_chained_roundtrip [OF example_primitives_invertible h2 h3]
      example_primitives_invertible h2 h3 
    unfolding l enc by simp
qed

lemma cipher_blocks_send_rest:
  assumes P: "primitives_invertible P"
  shows "length data = k * KeyBlockSize key \<Longrightarrow> KeyBlockSize key \<le> length iv \<Longrightarrow>
         length (snd (cipher_blocks P key iv data (length data) MCD_SEND operation 0)) = length data \<and>
         cipher_blocks P key iv (data @ rest) (length data) MCD_SEND operation 0 =
           (fst (cipher_blocks P key iv data (length data) MCD_SEND operation 0),
            snd (cipher_blocks P key iv data (length data) MCD_SEND operation 0) @ rest)"
proof (induction k arbitrary: iv data)
  case 0
  then show ?case by (simp add: cipher_blocks_done)
next
  case (Suc k)
  let ?bs = "KeyBlockSize key"
  let ?x = "map2 (XOR) (take ?bs data) (take ?bs iv)"
  let ?e = "snd (cipher_switch P key operation ?x)"
  let ?iv1 = "?e @ drop ?bs iv"
  let ?tl = "drop ?bs data"
  have ld: "?bs \<le> length data" using Suc.prems(1) by simp
  have ld': "?bs \<le> length (data @ rest)" using ld by simp
  have ltl: "length ?tl = k * ?bs" using Suc.prems(1) by simp
  have lx: "length ?x = ?bs" using ld Suc.prems(2) by simp
  have "?bs \<le> length ?x" using lx by linarith
  then have le: "length ?e = ?bs"
    by (rule cipher_switch_edata_length [OF P])
  have liv1: "?bs \<le> length ?iv1" using le by simp
  have sb: "MifareCipherSingleBlock P key data iv MCD_SEND operation ?bs = (?e @ ?tl, ?iv1)"
    using single_block_send [OF P ld Suc.prems(2), of operation] by (simp add: Let_def)
  have sb': "MifareCipherSingleBlock P key (data @ rest) iv MCD_SEND operation ?bs =
               (?e @ (?tl @ rest), ?iv1)"
    using single_block_send [OF P ld' Suc.prems(2), of operation] ld by (simp add: Let_def)
  note IH = Suc.IH [OF ltl liv1]
  have c1: "cipher_blocks P key iv data (length data) MCD_SEND operation 0 =
          (let (iv2, r) = cipher_blocks P key ?iv1 ?tl (length data - ?bs) MCD_SEND operation 0
           in (iv2, ?e @ r))"
    by (rule cipher_blocks_first [OF ld sb le])
  have c2: "cipher_blocks P key iv (data @ rest) (length data) MCD_SEND operation 0 =
          (let (iv2, r) = cipher_blocks P key ?iv1 (?tl @ rest) (length data - ?bs) MCD_SEND operation 0
           in (iv2, ?e @ r))"
    by (rule cipher_blocks_first [OF ld sb' le])
  show ?case
    using IH le ld unfolding c1 c2 by (simp add: split_beta)
qed

subsection \<open>Preprocessing of enciphered commands\<close>

lemma enciphered_lengths:
  fixes nbytes offset e :: "'a::len word"
  assumes le: "offset \<le> nbytes" and fit: "unat nbytes + 20 \<le> 2 ^ LENGTH('a)"
    and crc: "cs AND NO_CRC = 0"
    and e: "EncipheredDataLength tag (nbytes - offset) cs = Some e"
  defines "cl \<equiv> (case authentication_scheme tag of AS_LEGACY \<Rightarrow> 2 | AS_NEW \<Rightarrow> (4 :: nat))"
  shows "KeyBlockSize (session_key tag) dvd unat e"
    and "unat nbytes - unat offset + cl \<le> unat e"
    and "unat e < unat nbytes - unat offset + cl + KeyBlockSize (session_key tag)"
    and "unat (e + offset) = unat e + unat offset"
    and "unat (nbytes + of_nat cl) = unat nbytes + cl"
    and "unat (e + offset - (nbytes + of_nat cl)) = unat e + unat offset - (unat nbytes + cl)"
    and "unat (e + offset - offset) = unat e"
    and "unat (nbytes - offset) = unat nbytes - unat offset"
proof -
  let ?bs = "KeyBlockSize (session_key tag)"
  let ?bw = "of_nat ?bs :: 'a word"
  let ?cw = "of_nat cl :: 'a word"
  let ?x = "nbytes - offset + ?cw"
  have cl: "cl = 2 \<or> cl = 4" by (simp add: cl_def split: authentication_scheme_t.splits)
  have bs: "?bs = 8 \<or> ?bs = 16" by (rule KeyBlockSize_cases)
  have ubw: "unat ?bw = ?bs"
    using bs fit by (auto simp: unat_of_nat)
  have ucw: "unat ?cw = cl"
    using cl fit by (auto simp: unat_of_nat)
  have usub: "unat (nbytes - offset) = unat nbytes - unat offset"
    using le by (rule unat_sub)
  have ol: "unat offset \<le> unat nbytes" using le by (simp add: word_le_nat_alt)
  have ux: "unat ?x = unat nbytes - unat offset + cl"
  proof -
    have "unat (nbytes - offset) + unat ?cw < 2 ^ LENGTH('a)"
      using usub ucw cl fit by auto
    then show ?thesis using usub ucw by (simp add: unat_add_lem [THEN iffD1])
  qed
  have x0: "?x \<noteq> 0"
    using ux cl by (metis add_is_0 unat_0 zero_neq_numeral)
  have bw0: "?bw \<noteq> 0" using ubw bs by (metis unat_0 zero_neq_numeral)
  have E: "EncipheredDataLength tag (nbytes - offset) cs = PaddedDataLength ?x ?bw"
    using crc by (simp add: EncipheredDataLength_def cl_def split: authentication_scheme_t.splits)
  have fit': "?x = 0 \<or> ?x mod ?bw \<noteq> 0 \<longrightarrow> (unat ?x div unat ?bw + 1) * unat ?bw < 2 ^ LENGTH('a)"
  proof
    assume "?x = 0 \<or> ?x mod ?bw \<noteq> 0"
    then have "?x mod ?bw \<noteq> 0" using x0 by simp
    then have nz: "unat ?x mod ?bs \<noteq> 0"
      using ubw by (metis unat_mod unat_eq_zero)
    have bpos: "0 < ?bs" by simp
    have "(unat ?x div ?bs + 1) * ?bs - unat ?x < ?bs"
      using nz by (rule roundup_nat(2) [OF bpos])
    moreover have "unat ?x + ?bs \<le> unat nbytes + 20"
      using ux cl bs by auto
    ultimately have "(unat ?x div ?bs + 1) * ?bs < 2 ^ LENGTH('a)"
      using fit by linarith
    then show "(unat ?x div unat ?bw + 1) * unat ?bw < 2 ^ LENGTH('a)"
      unfolding ubw .
  qed
  obtain r where r: "PaddedDataLength ?x ?bw = Some r" "0 < unat r" "unat ?bw dvd unat r"
    "unat ?x \<le> unat r" "unat r - unat ?x < unat ?bw"
    using PaddedDataLength_props [OF bw0 fit'] x0 by auto
  have re: "r = e" using r(1) e E by simp
  show d: "?bs dvd unat e" using r(3) ubw re by simp
  show lo: "unat nbytes - unat offset + cl \<le> unat e" using r(4) ux re by simp
  have "unat e - (unat nbytes - unat offset + cl) < ?bs"
    using r(5) unfolding ux ubw re .
  then show hi: "unat e < unat nbytes - unat offset + cl + ?bs" by linarith
  have sum: "unat e + unat offset < 2 ^ LENGTH('a)"
    using hi ol cl bs fit by auto
  show eo: "unat (e + offset) = unat e + unat offset"
    using sum by (simp add: unat_add_lem [THEN iffD1])
  show nc: "unat (nbytes + ?cw) = unat nbytes + cl"
  proof -
    have "unat nbytes + unat ?cw < 2 ^ LENGTH('a)" using ucw cl fit by auto
    then show ?thesis using ucw by (simp add: unat_add_lem [THEN iffD1])
  qed
  have "nbytes + ?cw \<le> e + offset"
    using lo ol eo nc by (simp add: word_le_nat_alt)
  then show "unat (e + offset - (nbytes + ?cw)) = unat e + unat offset - (unat nbytes + cl)"
    using eo nc by (simp add: unat_sub)
  show "unat (e + offset - offset) = unat e" by simp
  show "unat (nbytes - offset) = unat nbytes - unat offset" by (rule usub)
qed

lemma round_up_multiple:
  fixes bs :: nat
  assumes "0 < bs" "bs dvd n"
  shows "(n + bs - 1) div bs * bs = n"
proof -
  obtain k where k: "n = bs * k" using assms(2) by (auto simp: dvd_def)
  have "(bs * k + bs - 1) div bs = k"
  proof -
    have "bs * k + bs - 1 = (bs - 1) + k * bs" using assms(1) by (simp add: mult.commute)
    then have "(bs * k + bs - 1) div bs = ((bs - 1) + k * bs) div bs" by simp
    also have "\<dots> = (bs - 1) div bs + k" using assms(1) by (subst div_mult_self1) simp_all
    also have "\<dots> = k" using assms(1) by simp
    finally show ?thesis .
  qed
  then show ?thesis using k by (simp add: mult.commute)
qed

text \<open>The checksum step of the enciphered case, on the crypto buffer that holds the data.\<close>

lemma crc_step_legacy:
  assumes "off < n" "n \<le> length data" "n + 2 \<le> length cb"
  shows "\<exists>crc. MifareCrc16 (take (n - off) (drop off data)) (n - off) = Some crc \<and> length crc = 2 \<and>
           MifareCrc16Append (drop off (take n data @ drop n cb)) (n - off) =
             Some (take (n - off) (drop off data) @ crc @ drop (n + 2) cb)"
proof -
  let ?p = "take (n - off) (drop off data)"
  have lp: "length ?p = n - off" using assms by simp
  have ne: "?p \<noteq> []" using lp assms(1) by (metis length_0_conv zero_less_diff less_numeral_extra(3))
  have d: "drop off (take n data @ drop n cb) = ?p @ drop n cb"
    using assms by (simp add: drop_take)
  show ?thesis
    using MifareCrc16_prefix [OF ne, of "[]"] MifareCrc16_prefix [OF ne, of "drop n cb"] assms
    unfolding d lp
    by (simp add: MifareCrc16Append_def)
qed

lemma crc_step_new:
  assumes "n \<le> length data" "n + 4 \<le> length cb"
  shows "\<exists>crc. MifareCrc32 (take n data) n = Some crc \<and> length crc = 4 \<and>
           MifareCrc32Append (take n data @ drop n cb) n =
             Some (take n data @ crc @ drop (n + 4) cb)"
proof -
  let ?p = "take n data"
  have lp: "length ?p = n" using assms by simp
  show ?thesis
    using MifareCrc32_prefix [of ?p "[]"] MifareCrc32_prefix [of ?p "drop n cb"] assms
    unfolding lp
    by (simp add: MifareCrc32Append_def add.commute)
qed

lemma tag_cipher_send:
  assumes P: "primitives_invertible P"
    and k: "length plain = k * KeyBlockSize (session_key tag)"
    and iv: "MAX_CRYPTO_BLOCK_SIZE \<le> length (ivect tag)"
  shows "\<exists>v c. MifareCipherBlocksChained P (Some tag) None None plain (length plain) MCD_SEND operation
                 = (Some v, c) \<and> length c = length plain \<and>
               cipher_tag P tag None (plain @ rest) (length plain) MCD_SEND operation
                 = (tag\<lparr>ivect := v\<rparr>, c @ rest)"
proof -
  let ?key = "session_key tag"
  let ?iv = "(case authentication_scheme tag of
                AS_LEGACY \<Rightarrow> memset (ivect tag) 0 0 MAX_CRYPTO_BLOCK_SIZE | AS_NEW \<Rightarrow> ivect tag)"
  have "length ?iv = length (ivect tag)"
    using iv by (simp add: MAX_CRYPTO_BLOCK_SIZE_def split: authentication_scheme_t.splits)
  then have liv: "KeyBlockSize ?key \<le> length ?iv"
    using iv KeyBlockSize_le [of ?key] unfolding MAX_CRYPTO_BLOCK_SIZE_def by linarith
  note sr = cipher_blocks_send_rest [OF P k liv, of operation rest]
  have a: "MifareCipherBlocksChained P (Some tag) None None plain (length plain) MCD_SEND operation =
        (Some (fst (cipher_blocks P ?key ?iv plain (length plain) MCD_SEND operation 0)),
         snd (cipher_blocks P ?key ?iv plain (length plain) MCD_SEND operation 0))"
    by (simp add: MifareCipherBlocksChained_def Let_def split_beta
        split: authentication_scheme_t.splits)
  have b: "MifareCipherBlocksChained P (Some tag) None None (plain @ rest) (length plain) MCD_SEND operation =
        (Some (fst (cipher_blocks P ?key ?iv plain (length plain) MCD_SEND operation 0)),
         snd (cipher_blocks P ?key ?iv plain (length plain) MCD_SEND operation 0) @ rest)"
    using sr
    by (simp add: MifareCipherBlocksChained_def Let_def split_beta
        split: authentication_scheme_t.splits)
  show ?thesis
    using sr unfolding a by (simp add: cipher_tag_def b)
qed

lemma preprocess_enciphered_result:
  fixes nbytes offset e :: "'a::len word"
  assumes P: "primitives_invertible P"
    and enc: "cs AND ENC_COMMAND \<noteq> 0" and crc: "cs AND NO_CRC = 0"
    and iv: "MAX_CRYPTO_BLOCK_SIZE \<le> length (ivect tag)"
    and le: "offset \<le> nbytes"
    and leg: "authentication_scheme tag = AS_LEGACY \<Longrightarrow> offset \<noteq> nbytes"
    and nd: "unat nbytes \<le> length data"
    and fit: "unat nbytes + 20 \<le> 2 ^ LENGTH('a)"
    and e: "EncipheredDataLength tag (nbytes - offset) cs = Some e"
    and room: "unat offset + unat e \<le> length (crypto_buffer tag)"
  shows "\<exists>crc v c.
      (case authentication_scheme tag of
         AS_LEGACY \<Rightarrow>
           MifareCrc16 (take (unat nbytes - unat offset) (drop (unat offset) data))
             (unat nbytes - unat offset) = Some crc
       | AS_NEW \<Rightarrow> MifareCrc32 (take (unat nbytes) data) (unat nbytes) = Some crc) \<and>
      MifareCipherBlocksChained P (Some tag) None None
         (take (unat nbytes - unat offset) (drop (unat offset) data) @ crc @
          replicate (unat e - (unat nbytes - unat offset) - length crc) 0)
         (unat e) MCD_SEND
         (case authentication_scheme tag of AS_LEGACY \<Rightarrow> MCO_DECIPHER | AS_NEW \<Rightarrow> MCO_ENCIPHER)
        = (Some v, c) \<and> length c = unat e \<and>
      preprocess_enciphered P tag data nbytes offset cs =
        Some (RES_CRYPTO_BUFFER, e + offset,
              tag\<lparr>ivect := v,
                  crypto_buffer := take (unat offset) data @ c @
                                     drop (unat offset + unat e) (crypto_buffer tag)\<rparr>)"
proof -
  let ?n = "unat nbytes" and ?off = "unat offset" and ?ue = "unat e"
  let ?cb = "crypto_buffer tag"
  let ?bs = "KeyBlockSize (session_key tag)"
  let ?cl = "(case authentication_scheme tag of AS_LEGACY \<Rightarrow> 2 | AS_NEW \<Rightarrow> (4 :: nat))"
  let ?op = "(case authentication_scheme tag of AS_LEGACY \<Rightarrow> MCO_DECIPHER | AS_NEW \<Rightarrow> MCO_ENCIPHER)"
  let ?payload = "take (?n - ?off) (drop ?off data)"
  note L = enciphered_lengths [OF le fit crc e]
  have ol: "?off \<le> ?n" using le by (simp add: word_le_nat_alt)
  have nroom: "?n + ?cl \<le> ?off + ?ue" using L(2) ol by linarith
  have ncb: "?n + ?cl \<le> length ?cb" using nroom room by linarith
  have s1: "memcpy_chk ?cb 0 data ?n = Some (take ?n data @ drop ?n ?cb)"
    using ncb nd by (simp add: memcpy_chk_def memcpy_def)
  have hd: "take ?off data @ ?payload = take ?n data"
    using ol by (metis le_add_diff_inverse take_add)
  have lpay: "length ?payload = ?n - ?off" using nd by simp
  have "\<exists>crc. length crc = ?cl \<and>
      (case authentication_scheme tag of
         AS_LEGACY \<Rightarrow> MifareCrc16 ?payload (?n - ?off) = Some crc
       | AS_NEW \<Rightarrow> MifareCrc32 (take ?n data) ?n = Some crc) \<and>
      (case authentication_scheme tag of
         AS_LEGACY \<Rightarrow>
           MifareCrc16Append (drop ?off (take ?n data @ drop ?n ?cb)) (unat (nbytes - offset)) \<bind>
             (\<lambda>r. Some (take ?off (take ?n data @ drop ?n ?cb) @ r, nbytes + 2))
       | AS_NEW \<Rightarrow>
           MifareCrc32Append (take ?n data @ drop ?n ?cb) ?n \<bind> (\<lambda>r. Some (r, nbytes + 4)))
        = Some (take ?n data @ crc @ drop (?n + ?cl) ?cb, nbytes + of_nat ?cl)"
  proof (cases "authentication_scheme tag")
    case AS_LEGACY
    have "?off \<noteq> ?n" using leg [OF AS_LEGACY] by (simp add: word_unat_eq_iff)
    then have lt: "?off < ?n" using ol by linarith
    have cb2: "?n + 2 \<le> length ?cb" using ncb AS_LEGACY by simp
    obtain crc where c: "MifareCrc16 ?payload (?n - ?off) = Some crc" "length crc = 2"
      "MifareCrc16Append (drop ?off (take ?n data @ drop ?n ?cb)) (?n - ?off) =
             Some (?payload @ crc @ drop (?n + 2) ?cb)"
      using crc_step_legacy [OF lt nd cb2] by blast
    have t: "take ?off (take ?n data @ drop ?n ?cb) = take ?off data"
      using ol nd by simp
    have j: "take ?off data @ ?payload @ crc @ drop (?n + 2) ?cb =
             take ?n data @ crc @ drop (?n + 2) ?cb"
      using hd by (metis append_assoc)
    have "MifareCrc16Append (drop ?off (take ?n data @ drop ?n ?cb)) (unat (nbytes - offset)) \<bind>
             (\<lambda>r. Some (take ?off (take ?n data @ drop ?n ?cb) @ r, nbytes + 2))
          = Some (take ?n data @ crc @ drop (?n + 2) ?cb, nbytes + 2)"
      unfolding L(8) c(3) t by (simp only: bind.bind_lunit j)
    then show ?thesis
      using c(1,2) AS_LEGACY by simp
  next
    case AS_NEW
    have cb4: "?n + 4 \<le> length ?cb" using ncb AS_NEW by simp
    obtain crc where c: "MifareCrc32 (take ?n data) ?n = Some crc" "length crc = 4"
      "MifareCrc32Append (take ?n data @ drop ?n ?cb) ?n = Some (take ?n data @ crc @ drop (?n + 4) ?cb)"
      using crc_step_new [OF nd cb4] by blast
    have "MifareCrc32Append (take ?n data @ drop ?n ?cb) ?n \<bind> (\<lambda>r. Some (r, nbytes + 4))
          = Some (take ?n data @ crc @ drop (?n + 4) ?cb, nbytes + 4)"
      unfolding c(3) by (simp only: bind.bind_lunit)
    then show ?thesis
      using c(1,2) AS_NEW by simp
  qed
  then obtain crc where lcrc: "length crc = ?cl"
    and crcv: "(case authentication_scheme tag of
         AS_LEGACY \<Rightarrow> MifareCrc16 ?payload (?n - ?off) = Some crc
       | AS_NEW \<Rightarrow> MifareCrc32 (take ?n data) ?n = Some crc)"
    and s2: "(case authentication_scheme tag of
         AS_LEGACY \<Rightarrow>
           MifareCrc16Append (drop ?off (take ?n data @ drop ?n ?cb)) (unat (nbytes - offset)) \<bind>
             (\<lambda>r. Some (take ?off (take ?n data @ drop ?n ?cb) @ r, nbytes + 2))
       | AS_NEW \<Rightarrow>
           MifareCrc32Append (take ?n data @ drop ?n ?cb) ?n \<bind> (\<lambda>r. Some (r, nbytes + 4)))
        = Some (take ?n data @ crc @ drop (?n + ?cl) ?cb, nbytes + of_nat ?cl)"
    by blast
  define z where "z = ?ue - (?n - ?off) - length crc"
  define plain where "plain = ?payload @ crc @ replicate z 0"
  define rest where "rest = drop (?off + ?ue) ?cb"
  define res2 where "res2 = take ?n data @ crc @ drop (?n + ?cl) ?cb"
  define res3 where "res3 = take ?n data @ crc @ replicate z 0 @ rest"
  have z: "z = ?ue + ?off - (?n + ?cl)" using lcrc ol unfolding z_def by linarith
  have nz: "?n + ?cl + z = ?off + ?ue" using z nroom by linarith
  have l3: "length res3 = length ?cb"
    using nd lcrc nz room unfolding res3_def rest_def by simp
  have s3: "memset_chk res2 (unat (nbytes + of_nat ?cl)) 0 (unat (e + offset - (nbytes + of_nat ?cl)))
              = Some res3"
  proof -
    have l2: "length res2 = length ?cb" using nd ncb lcrc unfolding res2_def by simp
    have t: "take (?n + ?cl) res2 = take ?n data @ crc" using nd lcrc unfolding res2_def by simp
    have d: "drop (?n + ?cl + z) res2 = rest"
      using nd lcrc nz ncb unfolding res2_def rest_def by (simp add: add.commute)
    have "memset_chk res2 (?n + ?cl) 0 z = Some (take (?n + ?cl) res2 @ replicate z 0 @
              drop (?n + ?cl + z) res2)"
      using l2 nz room by (simp add: memset_chk_def memset_def)
    then show ?thesis
      unfolding L(5) L(6) z [symmetric] t d res3_def by simp
  qed
  have lplain: "length plain = ?ue" using lpay lcrc nz ol unfolding plain_def by simp
  obtain k where k: "?ue = k * ?bs" using L(1) by (auto simp: dvd_def mult.commute)
  have kp: "length plain = k * ?bs" using lplain k by simp
  obtain v c where vc:
    "MifareCipherBlocksChained P (Some tag) None None plain (length plain) MCD_SEND ?op = (Some v, c)"
    "length c = length plain"
    "cipher_tag P tag None (plain @ rest) (length plain) MCD_SEND ?op
       = (tag\<lparr>ivect := v\<rparr>, c @ rest)"
    using tag_cipher_send [OF P kp iv, of ?op rest] by blast
  have s4: "cipher_region P tag res3 ?off (unat (e + offset - offset)) MCD_SEND
              (if authentication_scheme tag = AS_NEW then MCO_ENCIPHER else MCO_DECIPHER)
            = Some (tag\<lparr>ivect := v\<rparr>, take ?off data @ c @ rest)"
  proof -
    have op: "(if authentication_scheme tag = AS_NEW then MCO_ENCIPHER else MCO_DECIPHER) = ?op"
      by (simp split: authentication_scheme_t.splits)
    have ru: "(?ue + ?bs - 1) div ?bs * ?bs = ?ue"
      by (rule round_up_multiple [OF KeyBlockSize_pos L(1)])
    have "res3 = take ?off data @ (plain @ rest)"
      unfolding res3_def plain_def using hd by (metis append_assoc)
    then have d3: "drop ?off res3 = plain @ rest"
      and t3: "take ?off res3 = take ?off data"
      using ol nd by simp_all
    have chk: "?off + (?ue + ?bs - 1) div ?bs * ?bs \<le> length res3 \<and>
               MAX_CRYPTO_BLOCK_SIZE \<le> length (ivect tag)"
      unfolding ru l3 using room iv by simp
    have ct: "cipher_tag P tag None (drop ?off res3) ?ue MCD_SEND ?op = (tag\<lparr>ivect := v\<rparr>, c @ rest)"
      unfolding d3 using vc(3) unfolding lplain .
    show ?thesis
      unfolding op L(7) cipher_region_def Let_def
      by (simp only: chk ct t3 split_conv) simp
  qed
  have s2': "(if cs AND NO_CRC = 0
          then case authentication_scheme tag of
               AS_LEGACY \<Rightarrow>
                 MifareCrc16Append (drop ?off (take ?n data @ drop ?n ?cb)) (unat (nbytes - offset)) \<bind>
                 (\<lambda>r. Some (take ?off (take ?n data @ drop ?n ?cb) @ r, nbytes + 2))
               | AS_NEW \<Rightarrow>
                   MifareCrc32Append (take ?n data @ drop ?n ?cb) ?n \<bind> (\<lambda>r. Some (r, nbytes + 4))
          else Some (take ?n data @ drop ?n ?cb, nbytes)) = Some (res2, nbytes + of_nat ?cl)"
    using crc s2 unfolding res2_def by simp
  have "preprocess_enciphered P tag data nbytes offset cs =
        Some (RES_CRYPTO_BUFFER, e + offset,
              tag\<lparr>ivect := v, crypto_buffer := take ?off data @ c @ rest\<rparr>)"
    unfolding preprocess_enciphered_def
    using enc by (simp only: if_False e s1 bind.bind_lunit Let_def s2' split_conv s3 s4)
  then show ?thesis
    using crcv vc(1,2) lplain unfolding plain_def z_def rest_def by auto
qed

text \<open>
  Claim C2, as stated, has the buffer padded to a multiple of the block size and that
  padded length returned. With a one-byte header, five bytes of data and a single-DES
  legacy session the call returns 9: the header's byte plus the 8 bytes of data, CRC16
  and padding. 9 is not a multiple of the block size 8.
\<close>

theorem preprocess_enciphered_length_with_header:
  "map_option (\<lambda>(res, nbytes, tag). (res, nbytes))
     (MifareCryptoPreprocessData example_primitives (example_tag AS_LEGACY)
        [0x3D, 1, 2, 3, 4, 5] (6 :: 16 word) 1 0x1003)
     = Some (RES_CRYPTO_BUFFER, 9) \<and>
   KeyBlockSize (session_key (example_tag AS_LEGACY)) = 8 \<and>
   \<not> KeyBlockSize (session_key (example_tag AS_LEGACY)) dvd unat (9 :: 16 word)"
  by code_simp

text \<open>
  Claim C2, amended: in Enciphered mode with the encipher-command flag set and the CRC not
  suppressed, when the lengths fit the buffers (and, under the legacy scheme, at least one
  byte follows the header), \<open>MifareCryptoPreprocessData\<close> appends a CRC16 over only the
  bytes after the header offset under the legacy scheme and a CRC32 over the whole buffer
  including the header under the new scheme, zero-pads the region after the header offset
  to a multiple of the session key's block size (the length \<open>e\<close> that
  \<open>EncipheredDataLength\<close> gives), and applies the chained block cipher to that region only,
  deciphering under the legacy scheme and enciphering under the new one; the header bytes
  stay as they are and the returned length is the header offset plus \<open>e\<close>.
\<close>

theorem preprocess_enciphered_spec:
  fixes nbytes offset e :: "'a::len word"
  assumes "primitives_invertible P"
    and "cs AND MDCM_MASK = MDCM_ENCIPHERED"
    and "cs AND ENC_COMMAND \<noteq> 0" and "cs AND NO_CRC = 0"
    and "MAX_CRYPTO_BLOCK_SIZE \<le> length (ivect tag)"
    and "offset \<le> nbytes"
    and "authentication_scheme tag = AS_LEGACY \<Longrightarrow> offset \<noteq> nbytes"
    and "unat nbytes \<le> length data"
    and "unat nbytes + 20 \<le> 2 ^ LENGTH('a)"
    and "EncipheredDataLength tag (nbytes - offset) cs = Some e"
    and "unat offset + unat e \<le> length (crypto_buffer tag)"
  shows "\<exists>crc tag'.
      (case authentication_scheme tag of
         AS_LEGACY \<Rightarrow>
           MifareCrc16 (take (unat nbytes - unat offset) (drop (unat offset) data))
             (unat nbytes - unat offset) = Some crc
       | AS_NEW \<Rightarrow> MifareCrc32 (take (unat nbytes) data) (unat nbytes) = Some crc) \<and>
      KeyBlockSize (session_key tag) dvd unat e \<and>
      MifareCryptoPreprocessData P tag data nbytes offset cs =
        Some (RES_CRYPTO_BUFFER, e + offset, tag') \<and>
      unat (e + offset) = unat offset + unat e \<and>
      take (unat offset + unat e) (crypto_buffer tag') =
        take (unat offset) data @
        snd (MifareCipherBlocksChained P (Some tag) None None
               (take (unat nbytes - unat offset) (drop (unat offset) data) @ crc @
                replicate (unat e - (unat nbytes - unat offset) - length crc) 0)
               (unat e) MCD_SEND
               (case authentication_scheme tag of
                  AS_LEGACY \<Rightarrow> MCO_DECIPHER | AS_NEW \<Rightarrow> MCO_ENCIPHER))"
proof -
  obtain crc v c where r:
    "(case authentication_scheme tag of
         AS_LEGACY \<Rightarrow>
           MifareCrc16 (take (unat nbytes - unat offset) (drop (unat offset) data))
             (unat nbytes - unat offset) = Some crc
       | AS_NEW \<Rightarrow> MifareCrc32 (take (unat nbytes) data) (unat nbytes) = Some crc)"
    "MifareCipherBlocksChained P (Some tag) None None
         (take (unat nbytes - unat offset) (drop (unat offset) data) @ crc @
          replicate (unat e - (unat nbytes - unat offset) - length crc) 0)
         (unat e) MCD_SEND
         (case authentication_scheme tag of AS_LEGACY \<Rightarrow> MCO_DECIPHER | AS_NEW \<Rightarrow> MCO_ENCIPHER)
        = (Some v, c)"
    "length c = unat e"
    "preprocess_enciphered P tag data nbytes offset cs =
        Some (RES_CRYPTO_BUFFER, e + offset,
              tag\<lparr>ivect := v,
                  crypto_buffer := take (unat offset) data @ c @
                                     drop (unat offset + unat e) (crypto_buffer tag)\<rparr>)"
    using preprocess_enciphered_result [OF assms(1,3-11)] by blast
  note L = enciphered_lengths [OF assms(6,9,4,10)]
  have m: "MifareCryptoPreprocessData P tag data nbytes offset cs =
             preprocess_enciphered P tag data nbytes offset cs"
    using assms(2)
    by (simp add: MifareCryptoPreprocessData_def MDCM_ENCIPHERED_def MDCM_PLAIN_def MDCM_MACED_def)
  have lo: "length (take (unat offset) data) = unat offset"
    using assms(6,8) by (simp add: word_le_nat_alt)
  have t: "take (unat offset + unat e)
             (take (unat offset) data @ c @ drop (unat offset + unat e) (crypto_buffer tag)) =
           take (unat offset) data @ c"
    using lo r(3) by simp
  show ?thesis
    unfolding m r(4)
    using r(1) L(1) L(4) t r(2) by (auto simp: add.commute)
qed

theorem preprocess_enciphered_spec_witness:
  "primitives_invertible example_primitives \<and>
   (0x1003 :: int) AND MDCM_MASK = MDCM_ENCIPHERED \<and>
   (0x1003 :: int) AND ENC_COMMAND \<noteq> 0 \<and> (0x1003 :: int) AND NO_CRC = 0 \<and>
   MAX_CRYPTO_BLOCK_SIZE \<le> length (ivect (example_tag AS_LEGACY)) \<and>
   (1 :: 16 word) \<le> 6 \<and> (1 :: 16 word) \<noteq> 6 \<and>
   unat (6 :: 16 word) \<le> length [0x3D, 1, 2, 3, 4, 5 :: uint8_t] \<and>
   unat (6 :: 16 word) + 20 \<le> 2 ^ LENGTH(16) \<and>
   EncipheredDataLength (example_tag AS_LEGACY) (6 - 1 :: 16 word) 0x1003 = Some 8 \<and>
   unat (1 :: 16 word) + unat (8 :: 16 word) \<le> length (crypto_buffer (example_tag AS_LEGACY)) \<and>
   (\<exists>tag'. MifareCryptoPreprocessData example_primitives (example_tag AS_LEGACY)
              [0x3D, 1, 2, 3, 4, 5] (6 :: 16 word) 1 0x1003 = Some (RES_CRYPTO_BUFFER, 9, tag') \<and>
           take 9 (crypto_buffer tag') = [61, 221, 222, 223, 224, 225, 169, 201, 220])"
proof -
  have h1: "primitives_invertible example_primitives" by (rule example_primitives_invertible)
  have h2: "(0x1003 :: int) AND MDCM_MASK = MDCM_ENCIPHERED"
    by (simp add: MDCM_MASK_def MDCM_ENCIPHERED_def)
  have h3: "(0x1003 :: int) AND ENC_COMMAND \<noteq> 0" by (simp add: ENC_COMMAND_def)
  have h4: "(0x1003 :: int) AND NO_CRC = 0" by (simp add: NO_CRC_def)
  have h5: "MAX_CRYPTO_BLOCK_SIZE \<le> length (ivect (example_tag AS_LEGACY))"
    by (simp add: MAX_CRYPTO_BLOCK_SIZE_def example_tag_def)
  have h6: "(1 :: 16 word) \<le> 6" by simp
  have h7: "authentication_scheme (example_tag AS_LEGACY) = AS_LEGACY \<Longrightarrow> (1 :: 16 word) \<noteq> 6"
    by simp
  have h8: "unat (6 :: 16 word) \<le> length [0x3D, 1, 2, 3, 4, 5 :: uint8_t]" by simp
  have h9: "unat (6 :: 16 word) + 20 \<le> 2 ^ LENGTH(16)" by simp
  have h10: "EncipheredDataLength (example_tag AS_LEGACY) (6 - 1 :: 16 word) 0x1003 = Some 8"
    by (simp add: EncipheredDataLength_def NO_CRC_def example_tag_def example_key_def
        KeyBlockSize_def PaddedDataLength_def)
  have h11: "unat (1 :: 16 word) + unat (8 :: 16 word) \<le> length (crypto_buffer (example_tag AS_LEGACY))"
    by (simp add: example_tag_def)
  have crc: "MifareCrc16 [1, 2, 3, 4, 5] 5 = Some [0xCD, 0xED]"
    by code_simp
  have ciph: "snd (MifareCipherBlocksChained example_primitives (Some (example_tag AS_LEGACY)) None None
                 [1, 2, 3, 4, 5, 0xCD, 0xED, 0] 8 MCD_SEND MCO_DECIPHER)
              = [221, 222, 223, 224, 225, 169, 201, 220]"
    by code_simp
  have "\<exists>tag'. MifareCryptoPreprocessData example_primitives (example_tag AS_LEGACY)
              [0x3D, 1, 2, 3, 4, 5] (6 :: 16 word) 1 0x1003 = Some (RES_CRYPTO_BUFFER, 9, tag') \<and>
           take 9 (crypto_buffer tag') = [61, 221, 222, 223, 224, 225, 169, 201, 220]"
    using preprocess_enciphered_spec [OF h1 h2 h3 h4 h5 h6 h7 h8 h9 h10 h11] crc ciph
    by (simp add: example_tag_def)
  then show ?thesis
    using h1 h2 h3 h4 h5 h8 h9 h10 h11 by simp
qed

subsection \<open>Postprocessing of short responses\<close>

text \<open>
  Claim C10: under the new scheme, in Plain or MACed mode with \<open>CMAC_COMMAND\<close> and
  \<open>CMAC_VERIFY\<close> set, a response of more than one and fewer than nine bytes is returned as
  it came: the result is the caller's buffer (not \<open>NULL\<close>), unchanged, with \<open>*nbytes\<close>
  unchanged, and the tag is unchanged, so that no CMAC was computed (\<open>ivect\<close> and \<open>cmac\<close>
  keep their values) and \<open>last_pcd_error\<close> was not set.
\<close>

theorem postprocess_short_response_accepted:
  assumes "authentication_scheme tag = AS_NEW"
    and "cs AND MDCM_MASK = MDCM_PLAIN \<or> cs AND MDCM_MASK = MDCM_MACED"
    and "cs AND CMAC_COMMAND \<noteq> 0" and "cs AND CMAC_VERIFY \<noteq> 0"
    and "1 < nbytes" and "nbytes < 9"
  shows "MifareCryptoPostprocessData P tag data nbytes cs = Some (RES_DATA, data, nbytes, tag)"
  using assms
  by (auto simp: MifareCryptoPostprocessData_def postprocess_cmac_def CMAC_LENGTH_def Let_def)

theorem postprocess_short_response_accepted_witness:
  "authentication_scheme (example_tag AS_NEW) = AS_NEW \<and>
   (0x0031 :: int) AND MDCM_MASK = MDCM_MACED \<and>
   (0x0031 :: int) AND CMAC_COMMAND \<noteq> 0 \<and> (0x0031 :: int) AND CMAC_VERIFY \<noteq> 0 \<and>
   (1 :: int) < 5 \<and> (5 :: int) < 9 \<and>
   MifareCryptoPostprocessData example_primitives (example_tag AS_NEW) [1, 2, 3, 4, 0] 5 0x0031 =
     Some (RES_DATA, [1, 2, 3, 4, 0], 5, example_tag AS_NEW)"
proof -
  have h1: "authentication_scheme (example_tag AS_NEW) = AS_NEW" by (simp add: example_tag_def)
  have h2: "(0x0031 :: int) AND MDCM_MASK = MDCM_MACED" by (simp add: MDCM_MASK_def MDCM_MACED_def)
  have h3: "(0x0031 :: int) AND CMAC_COMMAND \<noteq> 0" by (simp add: CMAC_COMMAND_def)
  have h4: "(0x0031 :: int) AND CMAC_VERIFY \<noteq> 0" by (simp add: CMAC_VERIFY_def)
  show ?thesis
    using postprocess_short_response_accepted [OF h1 disjI2 [OF h2] h3 h4, of 5 example_primitives
        "[1, 2, 3, 4, 0]"] h1 h2 h3 h4
    by simp
qed

subsection \<open>The serial transport\<close>

declare get_bytes.simps [simp del] tcl_loop.simps [simp del]

lemma get_bytes_serial_tx:
  "get_bytes rxCount checkSum s = Some (rxCount', checkSum', s') \<Longrightarrow> serial_tx s' = serial_tx s"
proof (induction rxCount checkSum s rule: get_bytes.induct)
  case (1 rxCount checkSum s)
  show ?case
  proof (cases "rxCount < 2 \<or> (rxCount \<ge> 2 \<and> rxCount < unat (rxBuf s ! 1) + 2)")
    case False
    then show ?thesis using "1.prems" by (subst (asm) get_bytes.simps) auto
  next
    case c: True
    show ?thesis
    proof (cases "serial_rx s")
      case Nil
      then show ?thesis using "1.prems" c by (subst (asm) get_bytes.simps) auto
    next
      case (Cons ev rest)
      show ?thesis
      proof (cases ev)
        case None
        then show ?thesis using "1.prems" c Cons by (subst (asm) get_bytes.simps) auto
      next
        case (Some b)
        show ?thesis
        proof (cases "rxCount < length (rxBuf s)")
          case True
          have "get_bytes (rxCount + 1) (checkSum XOR b)
                  (s\<lparr>rxBuf := (rxBuf s)[rxCount := b], serial_rx := rest\<rparr>) =
                Some (rxCount', checkSum', s')"
            using "1.prems" c Cons Some True by (subst (asm) get_bytes.simps) simp
          then show ?thesis
            using "1.IH" [OF c Cons Some True] by simp
        next
          case False
          then show ?thesis using "1.prems" c Cons Some by (subst (asm) get_bytes.simps) simp
        qed
      qed
    qed
  qed
qed

lemma MifareGetBuf_serial_tx:
  "MifareGetBuf s = Some s' \<Longrightarrow> serial_tx s' = serial_tx s"
  by (auto simp: MifareGetBuf_def Let_def split: option.splits if_splits
      dest!: get_bytes_serial_tx)

lemma MifarePutBuf_serial_tx:
  "MifarePutBuf buffer sz s = Some s' \<Longrightarrow>
     length (serial_tx s') = length (serial_tx s) + (unat sz + 1)"
  by (auto simp: MifarePutBuf_def Let_def split: if_splits)

text \<open>
  Every call of \<open>MifarePutBuf\<close> transmits its \<open>size\<close> bytes and a checksum, and
  \<open>MifareGetBuf\<close> transmits nothing. Every pass of the loop transmits a whole frame of \<open>size + 3\<close> bytes and a checksum, so
  from pass \<open>i\<close> on the loop transmits \<open>size - i\<close> frames.
\<close>

lemma tcl_loop_serial_tx:
  "tcl_loop buffer sz i comm success s = Some (r, s') \<Longrightarrow>
     length (serial_tx s') = length (serial_tx s) + (unat sz - i) * (unat (sz + 3) + 1)"
proof (induction buffer sz i comm success s rule: tcl_loop.induct)
  case (1 buffer sz i comm success s)
  show ?case
  proof (cases "i < unat sz")
    case False
    then show ?thesis using "1.prems" by (subst (asm) tcl_loop.simps) auto
  next
    case lt: True
    show ?thesis
    proof (cases "i + 3 < length comm \<and> i < length buffer")
      case False
      then show ?thesis using "1.prems" lt by (subst (asm) tcl_loop.simps) auto
    next
      case ok: True
      define comm' where "comm' = comm[i + 3 := buffer ! i]"
      obtain s1 where put: "MifarePutBuf comm' (sz + 3) s = Some s1"
        using "1.prems" lt ok unfolding comm'_def
        by (subst (asm) tcl_loop.simps) (auto simp: Let_def split: option.splits)
      obtain s2 where get: "MifareGetBuf s1 = Some s2"
        using "1.prems" lt ok put unfolding comm'_def
        by (subst (asm) tcl_loop.simps) (auto simp: Let_def split: option.splits)
      define success' where
        "success' = (if uartStatus s2 = MF_UARTSTATUS_RXSUCC \<and> rxBuf s2 ! 2 = SL_TCL \<and>
                        rxBuf s2 ! 3 = SL_OPERATION_SUCC \<and>
                        (rxBuf s2 ! 4 = MF_OPERATION_OK \<or> rxBuf s2 ! 4 = MF_ADDITIONAL_FRAME)
                     then word_of_int SUCCESS else success)"
      have rec: "tcl_loop buffer sz (i + 1) comm' success' s2 = Some (r, s')"
        using "1.prems" lt ok put get unfolding comm'_def success'_def
        by (subst (asm) tcl_loop.simps) (simp add: Let_def)
      have ih: "length (serial_tx s') =
                  length (serial_tx s2) + (unat sz - (i + 1)) * (unat (sz + 3) + 1)"
        using "1.IH" [OF lt ok comm'_def put get success'_def rec] .
      have l2: "length (serial_tx s2) = length (serial_tx s) + (unat (sz + 3) + 1)"
        using MifarePutBuf_serial_tx [OF put] MifareGetBuf_serial_tx [OF get] by simp
      have "unat sz - i = Suc (unat sz - (i + 1))" using lt by simp
      then show ?thesis using ih l2 by simp
    qed
  qed
qed

text \<open>
  So a call of \<open>MifareCommTCL\<close> that returns has transmitted \<open>size\<close> frames of \<open>size + 4\<close>
  bytes, one frame for each byte of the payload.
\<close>

lemma MifareCommTCL_serial_tx:
  assumes "MifareCommTCL buffer sz comm s = Some (r, s')"
  shows "length (serial_tx s') = length (serial_tx s) + unat sz * (unat (sz + 3) + 1)"
proof -
  obtain r0 s0 where
    loop: "tcl_loop buffer sz 0 (comm[0 := 0xBA, 1 := sz + 2, 2 := SL_TCL]) (word_of_int FAIL) s =
             Some (r0, s0)"
    and s': "serial_tx s' = serial_tx s0"
    using assms by (auto simp: MifareCommTCL_def Let_def split: option.splits if_splits)
  show ?thesis using tcl_loop_serial_tx [OF loop] s' by simp
qed

text \<open>
  Claim C9: one call of \<open>MifareCommTCL\<close> with a payload of \<open>n\<close> bytes should transmit exactly
  one frame: \<open>0xBA\<close>, \<open>n + 2\<close>, \<open>0x21\<close>, the payload, and the XOR of these bytes. With the
  payload \<open>{0x0A, 0x00}\<close>, a command buffer that holds \<open>0xEE\<close> on entry and a card that
  never answers, the code transmits two frames of six bytes: the first with the byte
  \<open>comm[4]\<close> not yet copied from the payload, the second the frame of the claim.
\<close>

theorem MifareCommTCL_frame_per_byte:
  "map_option (\<lambda>(success, s). serial_tx s)
     (MifareCommTCL [0x0A, 0x00] 2 (replicate 63 0xEE)
        \<lparr>uartStatus = 0, rxBuf = replicate 65 0, serial_tx = [], serial_rx = []\<rparr>) =
   Some ([0xBA, 4, 0x21, 0x0A, 0xEE, 0x7B] @ [0xBA, 4, 0x21, 0x0A, 0x00, 0x95])"
  by code_simp

subsection \<open>Authentication\<close>

text \<open>
  The chained cipher called on a tag changes nothing of the tag but its vector, and so do
  the steps of \<open>Authenticate\<close> after the tag was reset.
\<close>

lemma cipher_tag_frame:
  assumes "cipher_tag P tag key data n direction operation = (tag', data')"
  shows "tag' = tag\<lparr>ivect := ivect tag'\<rparr>"
  using assms
  by (auto simp: cipher_tag_def split: prod.splits option.splits)

lemma auth_challenge_frame:
  assumes "auth_challenge P tag cmd key_no key comm s = Some (tag1, s1, key_length, PICC_RndB)"
  shows "authenticated_key_no tag1 = NOT_YET_AUTHENTICATED"
    and "session_key tag1 = session_key tag"
    and "authentication_scheme tag1 = (if MF_AUTHENTICATE_LEGACY = cmd then AS_LEGACY else AS_NEW)"
proof -
  define tag0 where
    "tag0 = tag\<lparr>ivect := memset (ivect tag) 0 0 MAX_CRYPTO_BLOCK_SIZE,
                 authenticated_key_no := NOT_YET_AUTHENTICATED,
                 authentication_scheme :=
                   (if MF_AUTHENTICATE_LEGACY = cmd then AS_LEGACY else AS_NEW)\<rparr>"
  obtain d where c: "cipher_tag P tag0 (Some key) d key_length MCD_RECEIVE MCO_DECIPHER =
                       (tag1, PICC_RndB)"
    using assms unfolding auth_challenge_def tag0_def
    by (auto simp: Let_def split: option.splits if_splits prod.splits)
  have eq: "tag1 = tag0\<lparr>ivect := ivect tag1\<rparr>" by (rule cipher_tag_frame [OF c])
  show "authenticated_key_no tag1 = NOT_YET_AUTHENTICATED"
    by (subst eq) (simp add: tag0_def)
  show "session_key tag1 = session_key tag"
    by (subst eq) (simp add: tag0_def)
  show "authentication_scheme tag1 = (if MF_AUTHENTICATE_LEGACY = cmd then AS_LEGACY else AS_NEW)"
    by (subst eq) (simp add: tag0_def)
qed

lemma auth_token_frame:
  assumes "auth_token P tag cmd key key_length PICC_RndB PCD_RndA = (tag', token)"
  shows "tag' = tag\<lparr>ivect := ivect tag'\<rparr>"
  using assms unfolding auth_token_def Let_def by (rule cipher_tag_frame)

lemma auth_response_frame:
  assumes "auth_response P tag key key_length token PCD_RndA comm s =
             Some (tag', s', PICC_r_RndA, PCD_r_RndA)"
  shows "tag' = tag\<lparr>ivect := ivect tag'\<rparr>"
    and "PCD_r_RndA = Rol (take key_length PCD_RndA) key_length"
proof -
  obtain d where c: "cipher_tag P tag (Some key) d key_length MCD_RECEIVE MCO_DECIPHER =
                       (tag', PICC_r_RndA)"
    and r: "PCD_r_RndA = Rol (take key_length PCD_RndA) key_length"
    using assms unfolding auth_response_def
    by (auto simp: Let_def split: option.splits if_splits prod.splits)
  show "tag' = tag\<lparr>ivect := ivect tag'\<rparr>" by (rule cipher_tag_frame [OF c])
  show "PCD_r_RndA = Rol (take key_length PCD_RndA) key_length" by (rule r)
qed

text \<open>
  Claim C3: in every run of \<open>Authenticate\<close> on an active tag in which the deciphered
  \<open>RndA'\<close> of the card differs from the engine's own rotation of its \<open>RndA\<close>, the function
  returns \<open>FAIL\<close>, \<open>authenticated_key_no\<close> is \<open>NOT_YET_AUTHENTICATED\<close>, and the session
  key of the tag, with its CMAC subkeys, is the one the tag had before the call.
\<close>

theorem authenticate_mismatch_fails:
  assumes "active tag \<noteq> 0"
    and "auth_challenge P tag cmd key_no key comm1 s = Some (tag1, s1, key_length, PICC_RndB)"
    and "auth_token P tag1 cmd key key_length PICC_RndB PCD_RndA = (tag2, token)"
    and "auth_response P tag2 key key_length token PCD_RndA comm2 s1 =
           Some (tag3, s2, PICC_r_RndA, PCD_r_RndA)"
    and "take key_length PCD_r_RndA \<noteq> take key_length PICC_r_RndA"
  shows "Authenticate P tag cmd key_no key PCD_RndA comm1 comm2 s = Some (FAIL, tag3, s2) \<and>
         PCD_r_RndA = Rol (take key_length PCD_RndA) key_length \<and>
         authenticated_key_no tag3 = NOT_YET_AUTHENTICATED \<and>
         session_key tag3 = session_key tag"
proof -
  have run: "Authenticate P tag cmd key_no key PCD_RndA comm1 comm2 s = Some (FAIL, tag3, s2)"
    using assms by (simp add: Authenticate_def)
  have e2: "tag2 = tag1\<lparr>ivect := ivect tag2\<rparr>" by (rule auth_token_frame [OF assms(3)])
  have e3: "tag3 = tag2\<lparr>ivect := ivect tag3\<rparr>" by (rule auth_response_frame(1) [OF assms(4)])
  have k: "authenticated_key_no tag3 = authenticated_key_no tag1"
    by (subst e3, subst e2) simp
  have sk: "session_key tag3 = session_key tag1"
    by (subst e3, subst e2) simp
  show ?thesis
    using run k sk auth_challenge_frame(1,2) [OF assms(2)] auth_response_frame(2) [OF assms(4)]
    by simp
qed

theorem authenticate_mismatch_fails_witness:
  "active (example_tag AS_NEW) \<noteq> 0 \<and>
   map_option (\<lambda>(status, tag', s').
                 (status, authenticated_key_no tag',
                  session_key tag' = session_key (example_tag AS_NEW)))
     (Authenticate example_primitives (example_tag AS_NEW) 0x0A 0 example_key example_RndA
        (replicate 63 0) (replicate 63 0) example_link) =
   Some (FAIL, NOT_YET_AUTHENTICATED, True)"
proof -
  have act: "active (example_tag AS_NEW) \<noteq> 0" by (simp add: example_tag_def)
  have ev: "case auth_challenge example_primitives (example_tag AS_NEW) 0x0A 0 example_key
                   (replicate 63 0) example_link of
              None \<Rightarrow> False
            | Some (tag1, s1, key_length, PICC_RndB) \<Rightarrow>
                (case auth_token example_primitives tag1 0x0A example_key key_length PICC_RndB
                        example_RndA of
                   (tag2, token) \<Rightarrow>
                     (case auth_response example_primitives tag2 example_key key_length token
                             example_RndA (replicate 63 0) s1 of
                        None \<Rightarrow> False
                      | Some (tag3, s2, PICC_r_RndA, PCD_r_RndA) \<Rightarrow>
                          take key_length PCD_r_RndA \<noteq> take key_length PICC_r_RndA))"
    by code_simp
  then obtain tag1 s1 key_length PICC_RndB where
    ch: "auth_challenge example_primitives (example_tag AS_NEW) 0x0A 0 example_key
           (replicate 63 0) example_link = Some (tag1, s1, key_length, PICC_RndB)"
    by (auto split: option.splits)
  obtain tag2 token where
    tk: "auth_token example_primitives tag1 0x0A example_key key_length PICC_RndB example_RndA =
           (tag2, token)"
    by fastforce
  obtain tag3 s2 PICC_r_RndA PCD_r_RndA where
    rs: "auth_response example_primitives tag2 example_key key_length token example_RndA
           (replicate 63 0) s1 = Some (tag3, s2, PICC_r_RndA, PCD_r_RndA)"
    and mm: "take key_length PCD_r_RndA \<noteq> take key_length PICC_r_RndA"
    using ev ch tk by (auto split: option.splits)
  show ?thesis
    using authenticate_mismatch_fails [OF act ch tk rs mm] act by simp
qed

text \<open>
  Claim C4: in step 3 the token is \<open>RndA\<close> followed by \<open>RndB\<close> rotated left by one byte,
  transformed by the chained cipher in the sending direction, deciphering for the legacy
  command and enciphering for the others. For the legacy command the run below shows that
  the vector left by step 2 is not the one used: step 2 leaves the card's enciphered
  challenge \<open>41 .. 48\<close> in the vector, the token of the code begins with \<open>240\<close>, the token
  chained from that vector with \<open>25\<close>.
\<close>

theorem auth_token_legacy_vector_reset:
  "map_option (\<lambda>(tag1, s1, key_length, PICC_RndB).
       (ivect tag1, key_length, PICC_RndB,
        snd (auth_token example_primitives tag1 0x0A example_key key_length PICC_RndB
               example_RndA),
        snd (MifareCipherBlocksChained example_primitives None (Some example_key)
               (Some (ivect tag1))
               (take key_length example_RndA @
                take key_length (Rol (take key_length PICC_RndB) key_length))
               (2 * key_length) MCD_SEND MCO_DECIPHER)))
     (auth_challenge example_primitives (example_tag AS_NEW) 0x0A 0 example_key
        (replicate 63 0) example_link) =
   Some ([41, 42, 43, 44, 45, 46, 47, 48, 0, 0, 0, 0, 0, 0, 0, 0], 8,
         [5, 6, 7, 8, 9, 10, 11, 12],
         [240, 241, 242, 243, 244, 245, 246, 247, 210, 210, 214, 214, 218, 218, 214, 206],
         [25, 27, 25, 23, 17, 19, 17, 7, 251, 248, 237, 250, 247, 244, 249, 222])"
  by code_simp

text \<open>
  Claim C4, as the code has it: the token is the chained transformation of
  \<open>RndA\<close> followed by the rotated \<open>RndB\<close>, started from the vector left by step 2 for the
  commands of the new generation, and from that vector with its 16 bytes set to zero for
  the legacy command.
\<close>

theorem auth_token_vector:
  assumes "auth_challenge P tag cmd key_no key comm s = Some (tag1, s1, key_length, PICC_RndB)"
  shows "snd (auth_token P tag1 cmd key key_length PICC_RndB PCD_RndA) =
         snd (MifareCipherBlocksChained P None (Some key)
                (Some (if cmd = MF_AUTHENTICATE_LEGACY
                       then memset (ivect tag1) 0 0 MAX_CRYPTO_BLOCK_SIZE
                       else ivect tag1))
                (take key_length PCD_RndA @
                 take key_length (Rol (take key_length PICC_RndB) key_length))
                (2 * key_length) MCD_SEND
                (if cmd = MF_AUTHENTICATE_LEGACY then MCO_DECIPHER else MCO_ENCIPHER))"
  using auth_challenge_frame(3) [OF assms]
  by (auto simp: auth_token_def cipher_tag_def MifareCipherBlocksChained_def Let_def
      split: prod.splits option.splits)

theorem auth_token_vector_witness:
  "map_option (\<lambda>(tag1, s1, key_length, PICC_RndB).
       (ivect tag1,
        snd (auth_token example_primitives tag1 0x1A example_key key_length PICC_RndB
               example_RndA),
        snd (MifareCipherBlocksChained example_primitives None (Some example_key)
               (Some (ivect tag1))
               (take key_length example_RndA @
                take key_length (Rol (take key_length PICC_RndB) key_length))
               (2 * key_length) MCD_SEND MCO_ENCIPHER)))
     (auth_challenge example_primitives (example_tag AS_LEGACY) 0x1A 0 example_key
        (replicate 63 0) example_link) =
   Some ([41, 42, 43, 44, 45, 46, 47, 48, 0, 0, 0, 0, 0, 0, 0, 0],
         [97, 99, 97, 95, 89, 91, 89, 79, 139, 136, 141, 122, 119, 116, 121, 110],
         [97, 99, 97, 95, 89, 91, 89, 79, 139, 136, 141, 122, 119, 116, 121, 110])"
proof -
  have ev: "map_option (\<lambda>(tag1, s1, key_length, PICC_RndB).
                (ivect tag1,
                 snd (auth_token example_primitives tag1 0x1A example_key key_length PICC_RndB
                        example_RndA)))
              (auth_challenge example_primitives (example_tag AS_LEGACY) 0x1A 0 example_key
                 (replicate 63 0) example_link) =
            Some ([41, 42, 43, 44, 45, 46, 47, 48, 0, 0, 0, 0, 0, 0, 0, 0],
                  [97, 99, 97, 95, 89, 91, 89, 79, 139, 136, 141, 122, 119, 116, 121, 110])"
    by code_simp
  then obtain tag1 s1 key_length PICC_RndB where
    ch: "auth_challenge example_primitives (example_tag AS_LEGACY) 0x1A 0 example_key
           (replicate 63 0) example_link = Some (tag1, s1, key_length, PICC_RndB)"
    by auto
  have iv: "ivect tag1 = [41, 42, 43, 44, 45, 46, 47, 48, 0, 0, 0, 0, 0, 0, 0, 0]"
    and tk: "snd (auth_token example_primitives tag1 0x1A example_key key_length PICC_RndB
                    example_RndA) =
             [97, 99, 97, 95, 89, 91, 89, 79, 139, 136, 141, 122, 119, 116, 121, 110]"
    using ev ch by simp_all
  have new: "(0x1A :: uint8_t) \<noteq> MF_AUTHENTICATE_LEGACY"
    by (simp add: MF_AUTHENTICATE_LEGACY_def)
  show ?thesis
    using auth_token_vector [OF ch, of example_RndA] new ch tk iv
    by simp
qed

end
